theory Spec2Isabelle
  imports Complex_Main "HOL-Library.Word" "HOL-Library.Log_Nat"
begin

section \<open>Strings and bytes of the JavaScript host\<close>

text \<open>
  A JavaScript string is a sequence of UTF-16 code units. A code unit is modelled by its
  numeric value, so that text outside ASCII (the analysed packages carry Chinese text) is
  covered by every statement below. String literals of the source are written with
  \<open>js\<close>.
\<close>

type_synonym cu = nat
type_synonym jsstring = "cu list"

definition js :: "string \<Rightarrow> jsstring" where
  "js s = map of_char s"

type_synonym byte = "8 word"

section \<open>Regular expressions as the engine runs them\<close>

text \<open>
  Whitespace: the characters \<open>\s\<close> matches and \<open>String.prototype.trim\<close> strips (the
  WhiteSpace and LineTerminator code points of ECMAScript).
\<close>

definition is_space :: "cu \<Rightarrow> bool" where
  "is_space c =
     (c = 9 \<or> c = 10 \<or> c = 11 \<or> c = 12 \<or> c = 13 \<or> c = 32 \<or> c = 160 \<or> c = 0x1680
      \<or> (0x2000 \<le> c \<and> c \<le> 0x200A) \<or> c = 0x2028 \<or> c = 0x2029 \<or> c = 0x202F
      \<or> c = 0x205F \<or> c = 0x3000 \<or> c = 0xFEFF)"

definition is_digit :: "cu \<Rightarrow> bool" where
  "is_digit c = (48 \<le> c \<and> c \<le> 57)"

definition is_upper :: "cu \<Rightarrow> bool" where
  "is_upper c = (65 \<le> c \<and> c \<le> 90)"

definition is_lower :: "cu \<Rightarrow> bool" where
  "is_lower c = (97 \<le> c \<and> c \<le> 122)"

definition is_line_terminator :: "cu \<Rightarrow> bool" where
  "is_line_terminator c = (c = 10 \<or> c = 13 \<or> c = 0x2028 \<or> c = 0x2029)"

text \<open>The flags of a regular expression that the source uses: \<open>i\<close> and \<open>s\<close>.\<close>

record flags =
  ignoreCase :: bool
  dotAll :: bool

text \<open>
  Character classes of the patterns: \<open>\s\<close>, \<open>\d\<close>, \<open>[^\n]\<close>, \<open>[A-Z]\<close>, \<open>[a-z]\<close> and
  the dot, which matches every code unit under the \<open>s\<close> flag and every code unit but the
  line terminators without it.
\<close>

datatype cls = Space | Digit | NotNewline | Upper | Lower | Dot

fun in_cls :: "flags \<Rightarrow> cls \<Rightarrow> cu \<Rightarrow> bool" where
  "in_cls fl Space c = is_space c"
| "in_cls fl Digit c = is_digit c"
| "in_cls fl NotNewline c = (c \<noteq> 10)"
| "in_cls fl Upper c = is_upper c"
| "in_cls fl Lower c = is_lower c"
| "in_cls fl Dot c = (dotAll fl \<or> \<not> is_line_terminator c)"

text \<open>
  Comparison of a pattern character with an input character. Under the \<open>i\<close> flag (and no
  \<open>u\<close> flag) both are canonicalized by the upper-case mapping, which never maps a code
  unit from 128 on to one below 128. Every literal of the patterns is ASCII, so only the
  ASCII letters change under the mapping.
\<close>

definition canonicalize :: "cu \<Rightarrow> cu" where
  "canonicalize c = (if is_lower c then c - 32 else c)"

definition chr_eq :: "flags \<Rightarrow> cu \<Rightarrow> cu \<Rightarrow> bool" where
  "chr_eq fl p c = (if ignoreCase fl then canonicalize p = canonicalize c else p = c)"

text \<open>
  The pattern language: literal text, one character of a class, a class under the greedy
  quantifiers \<open>*\<close> and \<open>+\<close> or the lazy \<open>*?\<close>, sequence, alternative, the lookahead
  \<open>(?=...)\<close> and the end anchor \<open>$\<close> (no \<open>m\<close> flag: the end of the input).
\<close>

datatype re =
    Lit jsstring
  | One cls
  | Star cls
  | Plus cls
  | LazyStar cls
  | Seq re re
  | Alt re re
  | Ahead re
  | End

fun seqs :: "re list \<Rightarrow> re" where
  "seqs [] = Lit []"
| "seqs [r] = r"
| "seqs (r # rs) = Seq r (seqs rs)"

text \<open>
  Backtracking. Every function returns the inputs that remain after each way of
  matching, in the order in which the engine tries them.
\<close>

fun match_lit :: "flags \<Rightarrow> jsstring \<Rightarrow> jsstring \<Rightarrow> jsstring list" where
  "match_lit fl [] s = [s]"
| "match_lit fl (p # ps) [] = []"
| "match_lit fl (p # ps) (c # cs) = (if chr_eq fl p c then match_lit fl ps cs else [])"

text \<open>A greedy quantifier takes one more character first and stops here as its last try.\<close>

fun star_greedy :: "(cu \<Rightarrow> bool) \<Rightarrow> jsstring \<Rightarrow> jsstring list" where
  "star_greedy p [] = [[]]"
| "star_greedy p (c # cs) = (if p c then star_greedy p cs @ [c # cs] else [c # cs])"

fun plus_greedy :: "(cu \<Rightarrow> bool) \<Rightarrow> jsstring \<Rightarrow> jsstring list" where
  "plus_greedy p [] = []"
| "plus_greedy p (c # cs) = (if p c then star_greedy p cs else [])"

text \<open>A lazy quantifier stops here first and takes one more character as its next try.\<close>

fun star_lazy :: "(cu \<Rightarrow> bool) \<Rightarrow> jsstring \<Rightarrow> jsstring list" where
  "star_lazy p [] = [[]]"
| "star_lazy p (c # cs) = (c # cs) # (if p c then star_lazy p cs else [])"

fun bt :: "flags \<Rightarrow> re \<Rightarrow> jsstring \<Rightarrow> jsstring list" where
  "bt fl (Lit w) s = match_lit fl w s"
| "bt fl (One k) s = (case s of [] \<Rightarrow> [] | c # cs \<Rightarrow> if in_cls fl k c then [cs] else [])"
| "bt fl (Star k) s = star_greedy (in_cls fl k) s"
| "bt fl (Plus k) s = plus_greedy (in_cls fl k) s"
| "bt fl (LazyStar k) s = star_lazy (in_cls fl k) s"
| "bt fl (Seq a b) s = concat (map (bt fl b) (bt fl a s))"
| "bt fl (Alt a b) s = bt fl a s @ bt fl b s"
| "bt fl (Ahead r) s = (if bt fl r s = [] then [] else [s])"
| "bt fl End s = (if s = [] then [s] else [])"

text \<open>
  Each pattern of the source has one capture group, with a part before it and a part
  after it: \<open>before (group) after\<close>, and its flags.
\<close>

record regex =
  before :: re
  group :: re
  after :: re
  flag :: flags

text \<open>
  The captures of the matches that start at the head of \<open>s\<close>, in the engine's order:
  each way through \<open>before\<close>, then each way through the group, kept when \<open>after\<close> matches.
\<close>

definition captures_at :: "regex \<Rightarrow> jsstring \<Rightarrow> jsstring list" where
  "captures_at r s =
     concat (map (\<lambda>s1.
       map (\<lambda>s2. take (length s1 - length s2) s1)
         (filter (\<lambda>s2. bt (flag r) (after r) s2 \<noteq> []) (bt (flag r) (group r) s1)))
       (bt (flag r) (before r) s))"

definition match_at :: "regex \<Rightarrow> jsstring \<Rightarrow> jsstring option" where
  "match_at r s = (case captures_at r s of [] \<Rightarrow> None | c # _ \<Rightarrow> Some c)"

text \<open>
  \<open>text.match(regex)\<close> for a regex without the \<open>g\<close> flag: the first start position, from
  the left, at which the pattern matches; \<open>None\<close> is \<open>null\<close>, and \<open>Some c\<close> is a match
  whose capture \<open>[1]\<close> is \<open>c\<close>.
\<close>

fun js_match :: "regex \<Rightarrow> jsstring \<Rightarrow> jsstring option" where
  "js_match r [] = match_at r []"
| "js_match r (c # cs) =
     (case match_at r (c # cs) of Some cap \<Rightarrow> Some cap | None \<Rightarrow> js_match r cs)"

definition trim :: "jsstring \<Rightarrow> jsstring" where
  "trim s = rev (dropWhile is_space (rev (dropWhile is_space s)))"

section \<open>Numbers\<close>

text \<open>
  A JavaScript Number is an IEEE 754 double. The values that arise here are \<open>NaN\<close>,
  non-negative integers and \<open>Infinity\<close>. \<open>to_double n\<close> is the Number nearest to the
  integer \<open>n\<close> (ties to the even significand): every integer below \<open>2 ^ 53\<close> is a Number,
  above that the 53 leading bits are kept and the rest is rounded.
\<close>

datatype number = NaN | Num nat | PosInfinity

definition to_double :: "nat \<Rightarrow> number" where
  "to_double n =
     (if n < 2 ^ 53 then Num n
      else let e = floorlog 2 n - 53;
               q = n div 2 ^ e;
               r = n mod 2 ^ e;
               half = 2 ^ (e - 1);
               q' = (if half < r \<or> (r = half \<and> odd q) then q + 1 else q)
           in if 2 ^ 1024 \<le> q' * 2 ^ e then PosInfinity else Num (q' * 2 ^ e))"

definition digits_value :: "jsstring \<Rightarrow> nat" where
  "digits_value ds = foldl (\<lambda>a c. 10 * a + (c - 48)) 0 ds"

text \<open>
  \<open>parseInt\<close> with one argument, on a string that starts with a digit or with any
  character that is neither whitespace, a sign nor a letter of a number: the decimal
  digits at the head of the string are read, and \<open>NaN\<close> results when there are none.
  (The source calls it on a match of \<open>\d+\<close> only.)
\<close>

definition parseInt :: "jsstring \<Rightarrow> number" where
  "parseInt s = (let ds = takeWhile is_digit s in if ds = [] then NaN else to_double (digits_value ds))"

text \<open>Truthiness of an optional Number and of an optional string.\<close>

fun truthy_number :: "number option \<Rightarrow> bool" where
  "truthy_number None = False"
| "truthy_number (Some NaN) = False"
| "truthy_number (Some (Num n)) = (n \<noteq> 0)"
| "truthy_number (Some PosInfinity) = True"

fun number_le :: "nat \<Rightarrow> number \<Rightarrow> bool" where
  "number_le k NaN = False"
| "number_le k (Num n) = (k \<le> n)"
| "number_le k PosInfinity = True"

section \<open>What a pattern matches\<close>

text \<open>
  \<open>den fl r w rest\<close>: the pattern \<open>r\<close> matches the word \<open>w\<close> when \<open>rest\<close> is what follows
  \<open>w\<close> in the input (the lookahead and the end anchor look at it). This is the meaning of
  a pattern without the order of the engine's tries; \<open>bt\<close> is proved to find exactly
  these matches.
\<close>

fun den :: "flags \<Rightarrow> re \<Rightarrow> jsstring \<Rightarrow> jsstring \<Rightarrow> bool" where
  "den fl (Lit p) w rest = list_all2 (chr_eq fl) p w"
| "den fl (One k) w rest = (\<exists>c. w = [c] \<and> in_cls fl k c)"
| "den fl (Star k) w rest = list_all (in_cls fl k) w"
| "den fl (Plus k) w rest = (w \<noteq> [] \<and> list_all (in_cls fl k) w)"
| "den fl (LazyStar k) w rest = list_all (in_cls fl k) w"
| "den fl (Seq a b) w rest = (\<exists>u v. w = u @ v \<and> den fl a u (v @ rest) \<and> den fl b v rest)"
| "den fl (Alt a b) w rest = (den fl a w rest \<or> den fl b w rest)"
| "den fl (Ahead r) w rest = (w = [] \<and> (\<exists>u v. rest = u @ v \<and> den fl r u v))"
| "den fl End w rest = (w = [] \<and> rest = [])"

text \<open>No match starts inside \<open>pre\<close> when \<open>pre @ t\<close> is searched.\<close>

definition no_match_before :: "regex \<Rightarrow> jsstring \<Rightarrow> jsstring \<Rightarrow> bool" where
  "no_match_before r pre t = (\<forall>p1 p2. pre = p1 @ p2 \<and> p2 \<noteq> [] \<longrightarrow> match_at r (p2 @ t) = None)"

section \<open>The product view: parsing the analysis\<close>

definition flags_i :: flags where
  "flags_i = \<lparr>ignoreCase = True, dotAll = False\<rparr>"

definition flags_s :: flags where
  "flags_s = \<lparr>ignoreCase = False, dotAll = True\<rparr>"

text \<open>\<^verbatim>\<open>/Roast\s*level\s*Profile:\s*(\d+)\/5/i\<close>\<close>

definition roastRe :: regex where
  "roastRe = \<lparr>
     before = seqs [Lit (js ''Roast''), Star Space, Lit (js ''level''), Star Space,
                    Lit (js ''Profile:''), Star Space],
     group = Plus Digit,
     after = Lit (js ''/5''),
     flag = flags_i\<rparr>"

text \<open>\<^verbatim>\<open>/Primary\s*coffee\s*origin:\s*([^\n]+)/i\<close>\<close>

definition originRe :: regex where
  "originRe = \<lparr>
     before = seqs [Lit (js ''Primary''), Star Space, Lit (js ''coffee''), Star Space,
                    Lit (js ''origin:''), Star Space],
     group = Plus NotNewline,
     after = Lit [],
     flag = flags_i\<rparr>"

text \<open>\<^verbatim>\<open>/Specific\s*farm\/region\/processing\s*detail:\s*([^\n]+)/i\<close>\<close>

definition regionRe :: regex where
  "regionRe = \<lparr>
     before = seqs [Lit (js ''Specific''), Star Space, Lit (js ''farm/region/processing''),
                    Star Space, Lit (js ''detail:''), Star Space],
     group = Plus NotNewline,
     after = Lit [],
     flag = flags_i\<rparr>"

text \<open>\<^verbatim>\<open>/English\s*translation:\s*([^\n]+)/i\<close>\<close>

definition tastingRe :: regex where
  "tastingRe = \<lparr>
     before = seqs [Lit (js ''English''), Star Space, Lit (js ''translation:''), Star Space],
     group = Plus NotNewline,
     after = Lit [],
     flag = flags_i\<rparr>"

text \<open>\<^verbatim>\<open>/Expert\s*Overview\s*(.*?)(?=\n\n|\n[A-Z]|$)/s\<close>\<close>

definition expertRe :: regex where
  "expertRe = \<lparr>
     before = seqs [Lit (js ''Expert''), Star Space, Lit (js ''Overview''), Star Space],
     group = LazyStar Dot,
     after = Ahead (Alt (Lit [10, 10]) (Alt (seqs [Lit [10], One Upper]) End)),
     flag = flags_s\<rparr>"

text \<open>
  \<^verbatim>\<open>new RegExp(`${sectionName}\\s+(.*?)(?=\\n\\n[A-Z]|\\n[A-Z][a-z]+\\s+[A-Z]|$)`, 's')\<close>.
  The section name is pasted into the pattern text; the five names the source passes
  consist of letters and spaces, which stand for themselves in a pattern.
\<close>

definition sectionRe :: "jsstring \<Rightarrow> regex" where
  "sectionRe sectionName = \<lparr>
     before = seqs [Lit sectionName, Plus Space],
     group = LazyStar Dot,
     after = Ahead (Alt (seqs [Lit [10, 10], One Upper])
               (Alt (seqs [Lit [10], One Upper, Plus Lower, Plus Space, One Upper]) End)),
     flag = flags_s\<rparr>"

text \<open>
  The pattern of the roast level as the specification words it. Two words have the same
  letters when they agree up to the case of ASCII letters. \<open>roast_phrase t ds rest\<close>: the
  text \<open>t\<close> reads \<open>Roast\<close>, \<open>level\<close>, \<open>Profile:\<close> in any case, with any whitespace after
  each, then the decimal digits \<open>ds\<close> (at least one), then \<open>/5\<close>, then \<open>rest\<close>.
  \<open>roast_phrase_at s pre ds\<close>: such a phrase starts in \<open>s\<close> right after \<open>pre\<close>.
\<close>

definition same_letters :: "jsstring \<Rightarrow> jsstring \<Rightarrow> bool" where
  "same_letters p w = list_all2 (\<lambda>a b. canonicalize a = canonicalize b) p w"

definition roast_phrase :: "jsstring \<Rightarrow> jsstring \<Rightarrow> jsstring \<Rightarrow> bool" where
  "roast_phrase t ds rest =
     (\<exists>r ws1 l ws2 p ws3.
        t = r @ ws1 @ l @ ws2 @ p @ ws3 @ ds @ js ''/5'' @ rest
        \<and> same_letters (js ''Roast'') r \<and> list_all is_space ws1
        \<and> same_letters (js ''level'') l \<and> list_all is_space ws2
        \<and> same_letters (js ''Profile:'') p \<and> list_all is_space ws3
        \<and> ds \<noteq> [] \<and> list_all is_digit ds)"

definition roast_phrase_at :: "jsstring \<Rightarrow> jsstring \<Rightarrow> jsstring \<Rightarrow> bool" where
  "roast_phrase_at s pre ds = (\<exists>t rest. s = pre @ t \<and> roast_phrase t ds rest)"

text \<open>The first roast phrase of \<open>s\<close>, from the left, has the digits \<open>ds\<close>.\<close>

definition first_roast_digits :: "jsstring \<Rightarrow> jsstring \<Rightarrow> bool" where
  "first_roast_digits s ds =
     (\<exists>pre. roast_phrase_at s pre ds
        \<and> (\<forall>pre' ds'. roast_phrase_at s pre' ds' \<longrightarrow> length pre \<le> length pre'))"

text \<open>
  The headers of the origin lines as the specification words them: three words in any
  case, with any whitespace after each. \<open>line_after header s c\<close>: somewhere in \<open>s\<close> a header
  is followed by the text \<open>c\<close>, which is not empty and has no line feed.
\<close>

definition three_words :: "jsstring \<Rightarrow> jsstring \<Rightarrow> jsstring \<Rightarrow> jsstring \<Rightarrow> bool" where
  "three_words A B C w =
     (\<exists>a ws1 b ws2 c ws3. w = a @ ws1 @ b @ ws2 @ c @ ws3
        \<and> same_letters A a \<and> list_all is_space ws1
        \<and> same_letters B b \<and> list_all is_space ws2
        \<and> same_letters C c \<and> list_all is_space ws3)"

definition line_after :: "(jsstring \<Rightarrow> bool) \<Rightarrow> jsstring \<Rightarrow> jsstring \<Rightarrow> bool" where
  "line_after header s c =
     (\<exists>pre h rest. s = pre @ h @ c @ rest \<and> header h \<and> c \<noteq> [] \<and> 10 \<notin> set c)"

definition origin_header :: "jsstring \<Rightarrow> bool" where
  "origin_header = three_words (js ''Primary'') (js ''coffee'') (js ''origin:'')"

definition region_header :: "jsstring \<Rightarrow> bool" where
  "region_header = three_words (js ''Specific'') (js ''farm/region/processing'') (js ''detail:'')"

definition extractSection :: "jsstring \<Rightarrow> jsstring \<Rightarrow> jsstring" where
  "extractSection txt sectionName =
     (case js_match (sectionRe sectionName) txt of Some c \<Rightarrow> trim c | None \<Rightarrow> [])"

text \<open>The section name, followed by a whitespace character, occurs in \<open>s\<close>.\<close>

definition heading_at :: "jsstring \<Rightarrow> jsstring \<Rightarrow> bool" where
  "heading_at title s = (\<exists>pre x rest. s = pre @ title @ x # rest \<and> is_space x)"

text \<open>
  The object \<open>parseAnalysis\<close> returns. A field the source assigns only under a condition
  is optional: \<open>None\<close> is \<open>undefined\<close>.
\<close>

record analysisData =
  roastLevel :: "number option"
  origin :: "jsstring option"
  tastingNotes :: "jsstring option"
  expertOverview :: "jsstring option"
  aboutOrigin :: jsstring
  gradeAndSourcing :: jsstring
  processingMethod :: jsstring
  flavorProfile :: jsstring
  roastLevelDescription :: jsstring

definition parseAnalysis :: "jsstring \<Rightarrow> analysisData" where
  "parseAnalysis analysisText =
     (let roastMatch = js_match roastRe analysisText;
          originMatch = js_match originRe analysisText;
          regionMatch = js_match regionRe analysisText;
          tastingMatch = js_match tastingRe analysisText;
          expertMatch = js_match expertRe analysisText
      in \<lparr>
        roastLevel = (case roastMatch of None \<Rightarrow> None | Some d \<Rightarrow> Some (parseInt d)),
        origin =
          (case originMatch of
             None \<Rightarrow> None
           | Some og \<Rightarrow>
               (case regionMatch of
                  None \<Rightarrow> Some (trim og)
                | Some rg \<Rightarrow> Some (trim og @ js '' - '' @ trim rg))),
        tastingNotes = (case tastingMatch of None \<Rightarrow> None | Some t \<Rightarrow> Some (trim t)),
        expertOverview = (case expertMatch of None \<Rightarrow> None | Some e \<Rightarrow> Some (trim e)),
        aboutOrigin = extractSection analysisText (js ''About the Origin''),
        gradeAndSourcing = extractSection analysisText (js ''Grade and Sourcing''),
        processingMethod = extractSection analysisText (js ''Processing Method''),
        flavorProfile = extractSection analysisText (js ''Flavor Profile''),
        roastLevelDescription = extractSection analysisText (js ''Roast Level'')\<rparr>)"

section \<open>The product view: rendering\<close>

text \<open>\<open>x || d\<close> on an optional string: \<open>undefined\<close> and the empty string are falsy.\<close>

fun or_else :: "jsstring option \<Rightarrow> jsstring \<Rightarrow> jsstring" where
  "or_else None d = d"
| "or_else (Some s) d = (if s = [] then d else s)"

text \<open>
  The parameters of the components carry a prime where the field of \<open>parseAnalysis\<close>'s
  object has the same name.

  The roast level card: either the placeholder paragraph, or the five circles (filled or
  not, left to right) with the label that prints the Number followed by \<open>/5\<close>.
\<close>

datatype roast_card = RoastPlaceholder jsstring | RoastScale "bool list" number

fun roast_level_card :: "number option \<Rightarrow> roast_card" where
  "roast_level_card None = RoastPlaceholder (js ''Roast level will appear after analysis'')"
| "roast_level_card (Some n) =
     (if truthy_number (Some n)
      then RoastScale (map (\<lambda>level. number_le level n) [1, 2, 3, 4, 5]) n
      else RoastPlaceholder (js ''Roast level will appear after analysis''))"

text \<open>\<open>tastingNotes.split(',')\<close>\<close>

fun split_on :: "cu \<Rightarrow> jsstring \<Rightarrow> jsstring list" where
  "split_on sep [] = [[]]"
| "split_on sep (c # cs) =
     (if c = sep then [] # split_on sep cs
      else (case split_on sep cs of [] \<Rightarrow> [[c]] | p # ps \<Rightarrow> (c # p) # ps))"

datatype notes_card = NotesPlaceholder jsstring | NotesBadges "jsstring list"

definition tasting_notes_card :: "jsstring option \<Rightarrow> notes_card" where
  "tasting_notes_card tastingNotes' =
     (case tastingNotes' of
        None \<Rightarrow> NotesPlaceholder (js ''Tasting notes will appear after analysis'')
      | Some t \<Rightarrow>
          if t = [] then NotesPlaceholder (js ''Tasting notes will appear after analysis'')
          else NotesBadges (map trim (split_on 44 t)))"

record details_grid =
  roast_cell :: roast_card
  origin_cell :: jsstring
  notes_cell :: notes_card

definition CoffeeDetailsGrid ::
  "number option \<Rightarrow> jsstring option \<Rightarrow> jsstring option \<Rightarrow> details_grid" where
  "CoffeeDetailsGrid roastLevel' origin' tastingNotes' = \<lparr>
     roast_cell = roast_level_card roastLevel',
     origin_cell = or_else origin' (js ''Origin information will appear after analysis''),
     notes_cell = tasting_notes_card tastingNotes'\<rparr>"

definition ExpertOverviewSection :: "jsstring option \<Rightarrow> jsstring" where
  "ExpertOverviewSection overview' =
     or_else overview' (js ''Expert overview will appear here after analysis.'')"

text \<open>
  The in-depth cards, in the order of the source: each is its title and the text of its
  paragraph, \<^verbatim>\<open>section.content || `${section.title} information will appear after analysis.`\<close>.
\<close>

definition InDepthDescriptionsSection ::
  "jsstring \<Rightarrow> jsstring \<Rightarrow> jsstring \<Rightarrow> jsstring \<Rightarrow> jsstring \<Rightarrow> (jsstring \<times> jsstring) list" where
  "InDepthDescriptionsSection aboutOrigin' gradeAndSourcing' processingMethod' flavorProfile'
       roastLevelDescription' =
     (let sections =
        [(js ''About the Origin'', aboutOrigin'),
         (js ''Grade and Sourcing'', gradeAndSourcing'),
         (js ''Processing Method'', processingMethod'),
         (js ''Flavor Profile'', flavorProfile'),
         (js ''Roast Level'', roastLevelDescription')]
      in map (\<lambda>(title, content).
           (title, or_else (Some content) (title @ js '' information will appear after analysis.'')))
         sections)"

text \<open>The five section names the source passes to \<open>extractSection\<close>, in the order of the cards.\<close>

definition section_titles :: "jsstring list" where
  "section_titles =
     [js ''About the Origin'', js ''Grade and Sourcing'', js ''Processing Method'',
      js ''Flavor Profile'', js ''Roast Level'']"

text \<open>
  The text of the card of a section, from the match of its pattern: the placeholder when
  there is no match or the trimmed body is empty, the trimmed body otherwise.
\<close>

definition card_text :: "jsstring \<Rightarrow> jsstring \<Rightarrow> jsstring" where
  "card_text s title =
     (case js_match (sectionRe title) s of
        None \<Rightarrow> title @ js '' information will appear after analysis.''
      | Some body \<Rightarrow>
          if trim body = [] then title @ js '' information will appear after analysis.''
          else trim body)"

text \<open>The properties of the component and what it renders (\<open>None\<close> when it is closed).\<close>

record product_view_props =
  isOpen :: bool
  analysis :: jsstring
  images :: "jsstring list"

record product_view =
  expert_overview :: jsstring
  details :: details_grid
  in_depth :: "(jsstring \<times> jsstring) list"

definition CoffeeProductView :: "product_view_props \<Rightarrow> product_view option" where
  "CoffeeProductView props =
     (if \<not> isOpen props then None
      else let analysisData = parseAnalysis (analysis props)
           in Some \<lparr>
                expert_overview = ExpertOverviewSection (expertOverview analysisData),
                details = CoffeeDetailsGrid (roastLevel analysisData) (origin analysisData)
                            (tastingNotes analysisData),
                in_depth = InDepthDescriptionsSection (aboutOrigin analysisData)
                             (gradeAndSourcing analysisData) (processingMethod analysisData)
                             (flavorProfile analysisData) (roastLevelDescription analysisData)\<rparr>)"

section \<open>Client-side file validation (chat modal)\<close>

text \<open>
  A \<open>File\<close> of the browser: its name, its MIME type (\<open>file.type\<close>) and its bytes;
  \<open>file.size\<close> is the number of bytes.
\<close>

record jsfile =
  name :: jsstring
  mime :: jsstring
  bytes :: "byte list"

definition file_size :: "jsfile \<Rightarrow> nat" where
  "file_size f = length (bytes f)"

definition MAX_FILE_SIZE :: nat where
  "MAX_FILE_SIZE = 10 * 1024 * 1024"

definition MAX_FILES :: nat where
  "MAX_FILES = 5"

definition ALLOWED_MIME_TYPES :: "jsstring list" where
  "ALLOWED_MIME_TYPES = [js ''image/jpeg'', js ''image/jpg'', js ''image/png'', js ''image/webp'']"

text \<open>
  \<open>uint8Array[i]\<close>: the byte at index \<open>i\<close>, or \<open>undefined\<close> (here \<open>None\<close>) past the end
  of the array; \<open>undefined === 0xFF\<close> is false.
\<close>

definition byte_at :: "byte list \<Rightarrow> nat \<Rightarrow> byte option" where
  "byte_at a i = (if i < length a then Some (a ! i) else None)"

text \<open>
  The \<open>FileReader\<close> either fires \<open>onload\<close> with the bytes of the slice it was given, or
  \<open>onerror\<close>; which of the two is decided by the browser.
\<close>

datatype read_event = OnLoad | OnError

definition isJPEG :: "byte list \<Rightarrow> bool" where
  "isJPEG a = (byte_at a 0 = Some 0xFF \<and> byte_at a 1 = Some 0xD8 \<and> byte_at a 2 = Some 0xFF)"

definition isPNG :: "byte list \<Rightarrow> bool" where
  "isPNG a = (byte_at a 0 = Some 0x89 \<and> byte_at a 1 = Some 0x50 \<and> byte_at a 2 = Some 0x4E
     \<and> byte_at a 3 = Some 0x47)"

definition isWEBP :: "byte list \<Rightarrow> bool" where
  "isWEBP a = (byte_at a 8 = Some 0x57 \<and> byte_at a 9 = Some 0x45 \<and> byte_at a 10 = Some 0x42
     \<and> byte_at a 11 = Some 0x50)"

text \<open>
  \<open>validateFile\<close>: the value its promise resolves with. The size check comes first, then
  the MIME type, then the magic numbers of \<open>file.slice(0, 12)\<close>.
\<close>

definition validateFile :: "read_event \<Rightarrow> jsfile \<Rightarrow> bool" where
  "validateFile ev f =
     (if file_size f > MAX_FILE_SIZE then False
      else if mime f \<notin> set ALLOWED_MIME_TYPES then False
      else (case ev of
              OnError \<Rightarrow> False
            | OnLoad \<Rightarrow>
                (let uint8Array = take 12 (bytes f)
                 in if isJPEG uint8Array \<or> isPNG uint8Array \<or> isWEBP uint8Array
                    then True else False)))"

text \<open>The three signatures as the specification words them, on the bytes of the file.\<close>

definition jpeg_signature :: "byte list \<Rightarrow> bool" where
  "jpeg_signature bs = (take 3 bs = [0xFF, 0xD8, 0xFF])"

definition png_signature :: "byte list \<Rightarrow> bool" where
  "png_signature bs = (take 4 bs = [0x89, 0x50, 0x4E, 0x47])"

definition webp_signature :: "byte list \<Rightarrow> bool" where
  "webp_signature bs = (take 4 (drop 8 bs) = [0x57, 0x45, 0x42, 0x50])"

text \<open>
  Files for concrete evaluation: a small PNG file, a file that starts like a JPEG file and
  stops after four bytes, a GIF file, and a GIF file that calls itself a PNG.
\<close>

definition png_file :: jsfile where
  "png_file = \<lparr>name = js ''bag.png'', mime = js ''image/png'',
     bytes = [0x89, 0x50, 0x4E, 0x47, 0x0D, 0x0A, 0x1A, 0x0A]\<rparr>"

definition gif_file :: jsfile where
  "gif_file = \<lparr>name = js ''bag.gif'', mime = js ''image/gif'', bytes = [0x47, 0x49, 0x46, 0x38]\<rparr>"

definition fake_png_file :: jsfile where
  "fake_png_file = \<lparr>name = js ''fake.png'', mime = js ''image/png'', bytes = [0x47, 0x49, 0x46, 0x38]\<rparr>"

definition truncated_jpeg :: jsfile where
  "truncated_jpeg = \<lparr>name = js ''bag.jpg'', mime = js ''image/jpeg'', bytes = [0xFF, 0xD8, 0xFF, 0x00]\<rparr>"

section \<open>The chat modal: image compression\<close>

text \<open>
  \<open>compressImage\<close> starts from the width and height of the decoded image, which are
  whole numbers of pixels. The arithmetic of the source is on Numbers; the products
  \<open>height * 800\<close> and \<open>width * 800\<close> are exact there, and the quotients are modelled by
  the rational numbers they round.
\<close>

definition maxSize :: rat where
  "maxSize = 800"

definition compress_dimensions :: "nat \<Rightarrow> nat \<Rightarrow> rat \<times> rat" where
  "compress_dimensions img_width img_height =
     (let width = of_nat img_width; height = of_nat img_height
      in if width > height
         then (if width > maxSize then (maxSize, (height * maxSize) / width) else (width, height))
         else (if height > maxSize then ((width * maxSize) / height, maxSize) else (width, height)))"

text \<open>
  \<open>canvas.width = width\<close>: the attribute is an \<open>unsigned long\<close>, so a non-negative Number
  is cut to its integer part (modulo \<open>2 ^ 32\<close>).
\<close>

definition unsigned_long :: "rat \<Rightarrow> nat" where
  "unsigned_long x = nat \<lfloor>x\<rfloor> mod 2 ^ 32"

text \<open>
  \<open>canvas.toDataURL(type, quality)\<close>: the string \<open>data:,\<close> for a canvas without pixels
  (a width or height of zero), otherwise the encoding of the bitmap in the type and at
  the quality asked for. The encoded pixels are the browser's; the model keeps the type,
  the quality and the size of the bitmap.
\<close>

datatype data_url = NoPixels | Encoded jsstring rat nat nat

definition toDataURL :: "nat \<Rightarrow> nat \<Rightarrow> jsstring \<Rightarrow> rat \<Rightarrow> data_url" where
  "toDataURL canvas_width canvas_height type quality =
     (if canvas_width = 0 \<or> canvas_height = 0 then NoPixels
      else Encoded type quality canvas_width canvas_height)"

text \<open>
  The promise of \<open>compressImage\<close> is resolved in \<open>img.onload\<close> and nowhere else. The
  argument is what loading the file as an image gives: its width and height, or \<open>None\<close>
  when the browser cannot decode it. The result \<open>None\<close> is a promise that stays pending.
\<close>

definition compressImage :: "(nat \<times> nat) option \<Rightarrow> data_url option" where
  "compressImage img =
     (case img of
        None \<Rightarrow> None
      | Some (img_width, img_height) \<Rightarrow>
          (let (width, height) = compress_dimensions img_width img_height
           in Some (toDataURL (unsigned_long width) (unsigned_long height) (js ''image/jpeg'') (8 / 10))))"

section \<open>The chat modal: submitting the form\<close>

text \<open>
  The two prompts, line by line; a code unit outside printable ASCII is written by its
  number (9 is the tab, 10 the line feed, 39 the apostrophe).
\<close>

definition COFFEE_ANALYSIS_PROMPT :: jsstring where
  \<open>COFFEE_ANALYSIS_PROMPT =
     js ''The coffee bean package shows a roast level, 5 circles between "LIGHT" and "DARK" on the package. Indicate the roast level as X/5.''\<close>

definition FOLLOW_UP_ANALYSIS_PROMPT :: jsstring where
  \<open>FOLLOW_UP_ANALYSIS_PROMPT =
     js ''STEP 1 - VALIDATION:'' @ [10] @
     js ''If the NODE logo (dark navy blue, circular, around center of the package) is not present don'' @ [8217] @ js ''t continue to next step, stop here and respond with: "Please take a picture of a product sold by NODE COFFEE ROASTERS."'' @ [10] @
     [10] @
     js ''STEP 2 '' @ [8211] @ js '' Identify the following Product Description from Packaging:'' @ [10] @
     js ''1.'' @ [9] @ js ''Primary coffee origin - Examples: BRAZIL, GUATEMALA, MANDHELING, COSTA RICA'' @ [10] @
     js ''2.'' @ [9] @ js ''Specific farm/region/processing detail - Examples: '' @ [10] @
     js ''o'' @ [9] @ js ''MANDHELING: "PWN G1" (grade designation)'' @ [10] @
     js ''o'' @ [9] @ js ''COSTA RICA: "Brunca Rivense Yellow Honey"'' @ [10] @
     js ''o'' @ [9] @ js ''BRAZIL: "CARMO DE MINAS SANTA"'' @ [10] @
     js ''o'' @ [9] @ js ''GUATEMALA: "Huehuetenango Maya Washed"'' @ [10] @
     js ''3.'' @ [9] @ js ''Primary coffee origin and Specific farm/region/processing detail in CHINESE - Examples: Chinese versions of lines 1 on packaging'' @ [10] @
     js ''4.'' @ [9] @ js ''Chinese tasting notes/flavor descriptors (Include English translation for this) - Examples: Flavor characteristics written in Chinese'' @ [10] @
     js ''5.'' @ [9] @ js ''Origin region and processing method in Chinese (Include English translation for this) - Examples: '' @ [20122, 27954] @ js ''/'' @ [21322, 27700, 27927] @ js '', '' @ [20013, 32654, 27954] @ js ''/'' @ [40644, 34588, 22788, 29702, 27861] @ js '', '' @ [21335, 32654, 27954] @ js ''/'' @ [21435, 26524, 30382, 26085, 26194] @ js '', '' @ [21335, 32654, 27954] @ js ''/'' @ [27700, 27927] @ [10] @
     js ''6.'' @ [9] @ js ''Roast level Profile '' @ [8211] @ js '' Get from previous analysis'' @ [10] @
     [10] @
     js ''STEP 3 - COFFEE PRODUCT ANALYSIS:'' @ [10] @
     js ''Coffee Product Analysis Prompt'' @ [10] @
     js ''You are a knowledgeable coffee expert working at NODE COFFEE SHOP who provides engaging, digestible analysis of your coffee products. When given coffee product information, create a compelling narrative that highlights the most interesting and relevant details for each specific coffee. Write with confidence and expertise about your products. CRITICAL: Never use uncertain language like "likely," "probably," "might refer to," or similar phrases. If you are not confident about a specific detail or term, simply omit it entirely rather than speculating. Only include information you are reasonably confident about (80%+ certainty) to maintain accuracy and authority.'' @ [10] @
     js ''Analysis Structure:'' @ [10] @
     js ''1. About the Origin'' @ [10] @
     [8226, 9] @ js ''Focus on what makes THIS specific region unique and noteworthy'' @ [10] @
     [8226, 9] @ js ''Highlight 1-2 key geographical or cultural details that matter for this coffee'' @ [10] @
     [8226, 9] @ js ''Mention altitude, climate, or soil only if particularly relevant to this origin'' @ [10] @
     [8226, 9] @ js ''Keep it conversational and intriguing, not encyclopedic'' @ [10] @
     js ''2. Grade and Sourcing (include only if present)'' @ [10] @
     [8226, 9] @ js ''Explain any specific grades, farm names, or quality indicators mentioned'' @ [10] @
     [8226, 9] @ js ''Focus on what these details tell us about quality or traceability'' @ [10] @
     [8226, 9] @ js ''Skip this section if no specific grading information is provided'' @ [10] @
     js ''3. Processing Method'' @ [10] @
     [8226, 9] @ js ''Explain the processing method used and why it matters for THIS coffee'' @ [10] @
     [8226, 9] @ js ''Connect the processing to the expected flavor outcomes'' @ [10] @
     [8226, 9] @ js ''Be specific about how this method affects the final cup'' @ [10] @
     js ''4. Flavor Profile'' @ [10] @
     [8226, 9] @ js ''Interpret the tasting notes in an engaging, accessible way'' @ [10] @
     [8226, 9] @ js ''Explain how the flavors work together and what creates the overall experience'' @ [10] @
     [8226, 9] @ js ''Make it easy to imagine what drinking this coffee will be like'' @ [10] @
     js ''5. Roast Level'' @ [10] @
     [8226, 9] @ js ''Explain the roast level and its key characteristics'' @ [10] @
     [8226, 9] @ js ''Focus on how this roast level serves this particular coffee'' @ [10] @
     [8226, 9] @ js ''Mention visual and taste impacts concisely'' @ [10] @
     js ''6. Expert Overview'' @ [10] @
     [8226, 9] @ js ''Create a concise, compelling sales pitch (2-3 sentences maximum)'' @ [10] @
     [8226, 9] @ js ''Highlight key flavors and characteristics that make this coffee irresistible'' @ [10] @
     [8226, 9] @ js ''Write as if you'' @ [39] @ js ''re personally recommending this coffee to a customer in the shop'' @ [10] @
     [8226, 9] @ js ''Focus on the unique qualities and overall experience this coffee offers'' @ [10] @
     [8226, 9] @ js ''Make it enticing and persuasive without being overly promotional'' @ [10] @
     js ''Guidelines:'' @ [10] @
     [8226, 9] @ js ''Write in clear, engaging English throughout'' @ [10] @
     [8226, 9] @ js ''Be selective - highlight the most compelling aspects for each specific coffee'' @ [10] @
     [8226, 9] @ js ''Keep each section concise but informative (2-4 sentences typically)'' @ [10] @
     [8226, 9] @ js ''Focus on practical insights that help readers understand what they'' @ [39] @ js ''re buying'' @ [10] @
     [8226, 9] @ js ''Correct any geographical errors in source material'' @ [10] @
     [8226, 9] @ js ''Adapt the depth of detail to what'' @ [39] @ js ''s most relevant for each coffee'' @ [10] @
     [8226, 9] @ js ''Create a compelling narrative, not a technical report'' @ [10] @
     js ''Input Format Expected:'' @ [10] @
     js ''1.'' @ [9] @ js ''Primary coffee name'' @ [10] @
     js ''2.'' @ [9] @ js ''Specific farm/region/processing details'' @ [10] @
     js ''3.'' @ [9] @ js ''Tasting notes/flavor descriptors'' @ [10] @
     js ''4.'' @ [9] @ js ''Origin region and processing method'' @ [10] @
     js ''5.'' @ [9] @ js ''Roast level profile'' @ [10] @
     js ''6.'' @ [9] @ js ''Package weight (if provided)'' @ [10] @
     js ''Your goal is to create an informative yet digestible analysis that makes readers excited about their coffee while understanding its unique characteristics.''\<close>

record attachment =
  attachment_name :: jsstring
  contentType :: jsstring
  url :: data_url

record message =
  role :: jsstring
  content :: jsstring
  experimental_attachments :: "attachment list option"

record chat_form =
  input :: jsstring
  uploadedImages :: "jsfile list"

text \<open>
  What a submission does: nothing (the early return), or it never gets past
  \<open>await Promise.all(imagePromises)\<close>, or it sends messages with \<open>append\<close>, in this
  order, and leaves the form cleared.
\<close>

datatype submit_outcome = Ignored | Pending | Sent "message list" chat_form

definition handleFormSubmit :: "(jsfile \<Rightarrow> (nat \<times> nat) option) \<Rightarrow> chat_form \<Rightarrow> submit_outcome" where
  "handleFormSubmit decode form =
     (if trim (input form) = [] \<and> length (uploadedImages form) = 0 then Ignored
      else
        let hasImages = length (uploadedImages form) > 0;
            imagePromises =
              map (\<lambda>file. case compressImage (decode file) of
                             None \<Rightarrow> None
                           | Some compressedUrl \<Rightarrow>
                               Some \<lparr>attachment_name = name file,
                                     contentType = js ''image/jpeg'',
                                     url = compressedUrl\<rparr>)
                (uploadedImages form)
        in case (if hasImages then map_option Some (those imagePromises) else Some None) of
             None \<Rightarrow> Pending
           | Some attachments \<Rightarrow>
               let messageText =
                     (if trim (input form) = [] \<and> hasImages then COFFEE_ANALYSIS_PROMPT
                      else input form);
                   first = \<lparr>role = js ''user'', content = messageText,
                            experimental_attachments = attachments\<rparr>;
                   follow_up =
                     (if hasImages \<and> trim (input form) = []
                      then [\<lparr>role = js ''user'', content = FOLLOW_UP_ANALYSIS_PROMPT,
                             experimental_attachments = None\<rparr>]
                      else [])
               in Sent (first # follow_up) \<lparr>input = [], uploadedImages = []\<rparr>)"

text \<open>The attachment the source builds for a file whose image loads.\<close>

definition attach :: "(jsfile \<Rightarrow> (nat \<times> nat) option) \<Rightarrow> jsfile \<Rightarrow> attachment" where
  "attach decode f = \<lparr>attachment_name = name f, contentType = js ''image/jpeg'',
     url = the (compressImage (decode f))\<rparr>"

section \<open>The chat modal: adding and removing files\<close>

text \<open>What the modal shows the user about a failure: an \<open>alert\<close> dialog or the error banner.\<close>

datatype report = Alert jsstring | ErrorBanner jsstring

definition too_many_files :: jsstring where
  "too_many_files = js ''Maximum 5 files allowed. Please remove some files first.''"

definition file_rejected :: "jsfile \<Rightarrow> jsstring" where
  "file_rejected f =
     js ''File '' @ [34] @ name f @ [34] @ js '' was rejected. Please use valid image files under 10MB.''"

text \<open>
  \<open>handleDrop\<close> and \<open>handleFileSelect\<close>. \<open>reader\<close> tells how reading each file ends.
  \<open>uploadedImages'\<close> is the list the handler sees (only its length is read, for the
  limit), \<open>prev\<close> the list that the state update extends. The result is the reports
  shown, in order, and the new list.
\<close>

definition handleDrop ::
  "(jsfile \<Rightarrow> read_event) \<Rightarrow> jsfile list \<Rightarrow> jsfile list \<Rightarrow> jsfile list \<Rightarrow> report list \<times> jsfile list" where
  "handleDrop reader uploadedImages' prev dropped =
     (let files = filter (\<lambda>f. mime f \<in> set ALLOWED_MIME_TYPES) dropped
      in if length uploadedImages' + length files > MAX_FILES then ([Alert too_many_files], prev)
         else
           let validFiles = filter (\<lambda>f. validateFile (reader f) f) files;
               alerts = map (\<lambda>f. Alert (file_rejected f))
                          (filter (\<lambda>f. \<not> validateFile (reader f) f) files)
           in (alerts, if length validFiles > 0 then prev @ validFiles else prev))"

definition handleFileSelect ::
  "(jsfile \<Rightarrow> read_event) \<Rightarrow> jsfile list \<Rightarrow> jsfile list \<Rightarrow> jsfile list \<Rightarrow> report list \<times> jsfile list" where
  "handleFileSelect reader uploadedImages' prev selected =
     (let files = filter (\<lambda>f. mime f \<in> set ALLOWED_MIME_TYPES) selected
      in if length uploadedImages' + length files > MAX_FILES then ([Alert too_many_files], prev)
         else
           let validFiles = filter (\<lambda>f. validateFile (reader f) f) files;
               alerts = map (\<lambda>f. Alert (file_rejected f))
                          (filter (\<lambda>f. \<not> validateFile (reader f) f) files)
           in (alerts, if length validFiles > 0 then prev @ validFiles else prev))"

text \<open>
  Two drop events that one render of the component handles: the second arrives before
  the component has rendered again with the files of the first (the first handler is at
  \<open>await validateFile\<close>, or its state update is not rendered yet). Both handlers are the
  callback of that render and read the length of its list \<open>rendered\<close>; each state update
  extends the list that is current when it runs, the update of the first event before the
  update of the second. The result is the reports of the first handler, the reports of
  the second, and the list after both updates.
\<close>

definition two_drops ::
  "(jsfile \<Rightarrow> read_event) \<Rightarrow> jsfile list \<Rightarrow> jsfile list \<Rightarrow> jsfile list
     \<Rightarrow> report list \<times> report list \<times> jsfile list" where
  "two_drops reader rendered dropped1 dropped2 =
     (let (reports1, images1) = handleDrop reader rendered rendered dropped1;
          (reports2, images2) = handleDrop reader rendered images1 dropped2
      in (reports1, reports2, images2))"

text \<open>\<open>removeImage\<close>: \<open>prev.filter((_, i) => i !== index)\<close>.\<close>

definition removeImage :: "nat \<Rightarrow> jsfile list \<Rightarrow> jsfile list" where
  "removeImage index prev = map fst (filter (\<lambda>(_, i). i \<noteq> index) (zip prev [0..<length prev]))"

section \<open>The chat modal: errors of the chat request\<close>

text \<open>\<open>s.includes(t)\<close>\<close>

fun includes' :: "jsstring \<Rightarrow> jsstring \<Rightarrow> bool" where
  "includes' [] t = (t = [])"
| "includes' (c # cs) t = (take (length t) (c # cs) = t \<or> includes' cs t)"

text \<open>\<open>onError\<close> of \<open>useChat\<close>: the text it stores with \<open>setError\<close>.\<close>

definition onError :: "jsstring \<Rightarrow> jsstring" where
  "onError error_message =
     (if includes' error_message (js ''429'')
      then js ''Too many requests. Please wait a minute before trying again.''
      else if includes' error_message (js ''503'')
      then js ''Service temporarily unavailable. Please try again later.''
      else js ''An error occurred. Please try again.'')"

text \<open>
  The error display above the input: \<open>{error && (...)}\<close> renders the stored text in a
  banner when it is a non-empty string. What the modal reports for a failed chat request
  is this banner; no \<open>alert\<close> is raised.
\<close>

definition error_display :: "jsstring option \<Rightarrow> report list" where
  "error_display error = (case error of None \<Rightarrow> [] | Some e \<Rightarrow> if e = [] then [] else [ErrorBanner e])"

definition chat_error_reports :: "jsstring \<Rightarrow> report list" where
  "chat_error_reports error_message = error_display (Some (onError error_message))"

fun is_alert :: "report \<Rightarrow> bool" where
  "is_alert (Alert _) = True"
| "is_alert (ErrorBanner _) = False"

section \<open>The product view: inputs for concrete evaluation\<close>

text \<open>Analyses for concrete evaluation of the roast level.\<close>

definition roast_zero_props :: product_view_props where
  "roast_zero_props = \<lparr>isOpen = True, analysis = js ''Roast level Profile: 0/5'', images = []\<rparr>"

definition roast_seven_props :: product_view_props where
  "roast_seven_props = \<lparr>isOpen = True, analysis = js ''Roast level Profile: 7/5'', images = []\<rparr>"

definition roast_twice_props :: product_view_props where
  "roast_twice_props = \<lparr>isOpen = True,
     analysis = js ''Roast level Profile: 3/5, not Roast level Profile: 0/5'', images = []\<rparr>"

definition roast_huge_props :: product_view_props where
  "roast_huge_props = \<lparr>isOpen = True,
     analysis = js ''Roast level Profile: 9007199254740993/5'', images = []\<rparr>"

text \<open>Analyses for concrete evaluation of the origin and of the in-depth sections.\<close>

definition origin_text :: jsstring where
  "origin_text = js ''Primary coffee origin: BRAZIL \<newline>Specific farm/region/processing detail: CARMO''"

definition region_only_text :: jsstring where
  "region_only_text = js ''Specific farm/region/processing detail: CARMO''"

definition heading_only_props :: product_view_props where
  "heading_only_props = \<lparr>isOpen = True, analysis = js ''About the Origin '', images = []\<rparr>"

definition sections_props :: product_view_props where
  "sections_props = \<lparr>isOpen = True,
     analysis = js ''About the Origin\<newline>Brazil is big.\<newline>\<newline>Grade and Sourcing\<newline>Fine.'',
     images = []\<rparr>"

section \<open>The product view: the objects and the state behind parseAnalysis\<close>

text \<open>
  \<open>parseAnalysis\<close> is a closure of \<open>CoffeeProductView\<close>. Each of its calls evaluates five
  regular expression literals and, through \<open>extractSection\<close>, five \<open>new RegExp\<close>; every
  evaluation creates a RegExp object, and \<open>match\<close> reads and writes the \<open>lastIndex\<close> of
  the object it is given. This section makes that state explicit: the heap is the list of
  the RegExp objects created so far, an object is referred to by its position in it, and
  a computation takes the heap and returns its value, or the exception it throws, with
  the heap it leaves.
\<close>

record regexp_object =
  pattern :: regex
  global :: bool
  sticky :: bool
  lastIndex :: nat

type_synonym heap = "regexp_object list"

datatype exn = TypeError

type_synonym 'a run = "heap \<Rightarrow> (exn + 'a) \<times> heap"

definition ret :: "'a \<Rightarrow> 'a run" where
  "ret x h = (Inr x, h)"

definition raise :: "exn \<Rightarrow> 'a run" where
  "raise e h = (Inl e, h)"

text \<open>One statement after the other; an exception ends the computation.\<close>

definition and_then :: "'a run \<Rightarrow> ('a \<Rightarrow> 'b run) \<Rightarrow> 'b run" where
  "and_then m f h = (case m h of (Inl e, h') \<Rightarrow> (Inl e, h') | (Inr x, h') \<Rightarrow> f x h')"

text \<open>
  A regular expression literal \<^verbatim>\<open>/pattern/flags\<close> and \<^verbatim>\<open>new RegExp(pattern, flags)\<close>: a new
  object, with \<open>lastIndex\<close> 0. \<open>fl\<close> is the flag text of the source; the flags \<open>i\<close> and \<open>s\<close>
  are part of the pattern \<open>r\<close>.
\<close>

definition new_RegExp :: "regex \<Rightarrow> string \<Rightarrow> nat run" where
  "new_RegExp r fl h =
     (Inr (length h),
      h @ [\<lparr>pattern = r, global = (CHR ''g'' \<in> set fl), sticky = (CHR ''y'' \<in> set fl),
            lastIndex = 0\<rparr>])"

definition head_option :: "'a list \<Rightarrow> 'a option" where
  "head_option xs = (case xs of [] \<Rightarrow> None | x # _ \<Rightarrow> Some x)"

text \<open>
  The matches that start at the head of \<open>s\<close>, in the engine's order: the length of the
  matched text and the capture.
\<close>

definition matches_at :: "regex \<Rightarrow> jsstring \<Rightarrow> (nat \<times> jsstring) list" where
  "matches_at r s =
     concat (map (\<lambda>s1.
       concat (map (\<lambda>s2.
         map (\<lambda>s3. (length s - length s3, take (length s1 - length s2) s1))
           (bt (flag r) (after r) s2))
         (bt (flag r) (group r) s1)))
       (bt (flag r) (before r) s))"

text \<open>
  The search of \<open>exec\<close> from the position \<open>i\<close>, with \<open>s\<close> the input from there on: the
  first position at which the pattern matches, as start, end and capture. (The patterns
  look at the input after the position only, never before it.)
\<close>

fun search :: "regex \<Rightarrow> nat \<Rightarrow> jsstring \<Rightarrow> (nat \<times> nat \<times> jsstring) option" where
  "search r i [] =
     (case head_option (matches_at r []) of None \<Rightarrow> None | Some (n, c) \<Rightarrow> Some (i, i + n, c))"
| "search r i (x # xs) =
     (case head_option (matches_at r (x # xs)) of
        None \<Rightarrow> search r (Suc i) xs
      | Some (n, c) \<Rightarrow> Some (i, i + n, c))"

text \<open>A sticky object matches at the position itself only.\<close>

definition match_from :: "regexp_object \<Rightarrow> jsstring \<Rightarrow> nat \<Rightarrow> (nat \<times> nat \<times> jsstring) option" where
  "match_from R S i =
     (if sticky R
      then (case head_option (matches_at (pattern R) (drop i S)) of
              None \<Rightarrow> None
            | Some (n, c) \<Rightarrow> Some (i, i + n, c))
      else search (pattern R) i (drop i S))"

text \<open>
  \<open>R.exec(S)\<close>: the search starts at \<open>lastIndex\<close> when the object is global or sticky and
  at 0 otherwise. The result is \<open>null\<close> or the array of the matched text and the capture;
  a global or sticky object has its \<open>lastIndex\<close> set to the end of the match, or to 0 when
  there is none.
\<close>

definition RegExpBuiltinExec :: "regexp_object \<Rightarrow> jsstring \<Rightarrow> jsstring list option \<times> regexp_object" where
  "RegExpBuiltinExec R S =
     (let keep = (global R \<or> sticky R);
          i = (if keep then lastIndex R else 0)
      in if length S < i then (None, if keep then R\<lparr>lastIndex := 0\<rparr> else R)
         else (case match_from R S i of
                 None \<Rightarrow> (None, if keep then R\<lparr>lastIndex := 0\<rparr> else R)
               | Some (b, e, c) \<Rightarrow>
                   (Some [take (e - b) (drop b S), c], if keep then R\<lparr>lastIndex := e\<rparr> else R)))"

text \<open>
  What \<open>exec\<close> returns for an object that is neither global nor sticky: the array of
  the first match from the left, or \<open>null\<close>.
\<close>

definition exec_result :: "regex \<Rightarrow> jsstring \<Rightarrow> jsstring list option" where
  "exec_result r S =
     (case search r 0 S of None \<Rightarrow> None | Some (b, e, c) \<Rightarrow> Some [take (e - b) (drop b S), c])"

text \<open>
  The loop of \<open>S.match(R)\<close> for a global object: the matched texts from the position \<open>i\<close>
  on; after an empty match the search goes on one position further.
\<close>

function match_all :: "regexp_object \<Rightarrow> jsstring \<Rightarrow> nat \<Rightarrow> jsstring list" where
  "match_all R S i =
     (if length S < i then []
      else (case match_from R S i of
              None \<Rightarrow> []
            | Some (b, e, c) \<Rightarrow> take (e - b) (drop b S) # match_all R S (if e = b then Suc e else e)))"
  by pat_completeness auto
termination
proof -
  have bound: "i \<le> b \<and> b \<le> e" if "search r i s = Some (b, e, c)" for r i s b e c
    using that by (induction r i s rule: search.induct) (auto split: option.splits)
  have from_bound: "i \<le> b \<and> b \<le> e" if "match_from R S i = Some (b, e, c)" for R S i b e c
    using that bound[of "pattern R" i "drop i S" b e c]
    by (auto simp: match_from_def split: if_splits option.splits)
  show ?thesis
    by (relation "measure (\<lambda>(R, S, i). Suc (length S) - i)") (auto dest: from_bound)
qed

text \<open>
  \<open>S.match(R)\<close> with \<open>R\<close> the object at the position \<open>a\<close> of the heap. For an object that
  is not global it is \<open>R.exec(S)\<close>. For a global object it is the array of all matched
  texts, or \<open>null\<close> when there is none, and \<open>lastIndex\<close> is left at 0. (A position is
  what \<open>new_RegExp\<close> returned, so it lies within the heap: a reference never dangles.)
\<close>

definition str_match :: "jsstring \<Rightarrow> nat \<Rightarrow> jsstring list option run" where
  "str_match S a h =
     (let R = h ! a
      in if global R
         then (let ms = match_all R S 0
               in (Inr (if ms = [] then None else Some ms), h[a := R\<lparr>lastIndex := 0\<rparr>]))
         else (case RegExpBuiltinExec R S of (m, R') \<Rightarrow> (Inr m, h[a := R'])))"

text \<open>\<open>m[1]\<close>: \<open>None\<close> is \<open>undefined\<close>, for an array with one element.\<close>

definition element1 :: "jsstring list \<Rightarrow> jsstring option" where
  "element1 m = (if 1 < length m then Some (m ! 1) else None)"

text \<open>\<open>x.trim()\<close>: reading a property of \<open>undefined\<close> throws a TypeError.\<close>

definition trim_of :: "jsstring option \<Rightarrow> jsstring run" where
  "trim_of x = (case x of None \<Rightarrow> raise TypeError | Some s \<Rightarrow> ret (trim s))"

text \<open>\<open>parseInt(x)\<close>: the argument is converted to a string first.\<close>

definition parseInt_of :: "jsstring option \<Rightarrow> number" where
  "parseInt_of x = parseInt (case x of None \<Rightarrow> js ''undefined'' | Some s \<Rightarrow> s)"

text \<open>\<open>extractSection\<close>, with the object it creates.\<close>

definition extractSection_st :: "jsstring \<Rightarrow> jsstring \<Rightarrow> jsstring run" where
  "extractSection_st txt sectionName =
     and_then (new_RegExp (sectionRe sectionName) ''s'') (\<lambda>regex'.
     and_then (str_match txt regex') (\<lambda>match'.
       case match' of None \<Rightarrow> ret [] | Some m \<Rightarrow> trim_of (element1 m)))"

text \<open>
  \<open>parseAnalysis\<close>, statement by statement. \<open>scope\<close> is what the closure can see of the
  component: the properties \<open>isOpen\<close>, \<open>analysis\<close> and \<open>images\<close> of \<open>CoffeeProductView\<close>.
\<close>

definition parseAnalysis_st :: "product_view_props \<Rightarrow> jsstring \<Rightarrow> analysisData run" where
  "parseAnalysis_st scope analysisText =
     and_then (new_RegExp roastRe ''i'') (\<lambda>re1.
     and_then (str_match analysisText re1) (\<lambda>roastMatch.
     and_then (new_RegExp originRe ''i'') (\<lambda>re2.
     and_then (str_match analysisText re2) (\<lambda>originMatch.
     and_then (new_RegExp regionRe ''i'') (\<lambda>re3.
     and_then (str_match analysisText re3) (\<lambda>regionMatch.
     and_then (case originMatch of
                 None \<Rightarrow> ret None
               | Some om \<Rightarrow>
                   and_then (trim_of (element1 om)) (\<lambda>og.
                     case regionMatch of
                       None \<Rightarrow> ret (Some og)
                     | Some rm \<Rightarrow>
                         and_then (trim_of (element1 rm)) (\<lambda>rg.
                           ret (Some (og @ js '' - '' @ rg))))) (\<lambda>origin'.
     and_then (new_RegExp tastingRe ''i'') (\<lambda>re4.
     and_then (str_match analysisText re4) (\<lambda>tastingMatch.
     and_then (case tastingMatch of
                 None \<Rightarrow> ret None
               | Some tm \<Rightarrow> and_then (trim_of (element1 tm)) (\<lambda>t. ret (Some t))) (\<lambda>tastingNotes'.
     and_then (new_RegExp expertRe ''s'') (\<lambda>re5.
     and_then (str_match analysisText re5) (\<lambda>expertMatch.
     and_then (case expertMatch of
                 None \<Rightarrow> ret None
               | Some em \<Rightarrow> and_then (trim_of (element1 em)) (\<lambda>e. ret (Some e))) (\<lambda>expertOverview'.
     and_then (extractSection_st analysisText (js ''About the Origin'')) (\<lambda>aboutOrigin'.
     and_then (extractSection_st analysisText (js ''Grade and Sourcing'')) (\<lambda>gradeAndSourcing'.
     and_then (extractSection_st analysisText (js ''Processing Method'')) (\<lambda>processingMethod'.
     and_then (extractSection_st analysisText (js ''Flavor Profile'')) (\<lambda>flavorProfile'.
     and_then (extractSection_st analysisText (js ''Roast Level'')) (\<lambda>roastLevelDescription'.
       ret \<lparr>roastLevel = (case roastMatch of
                             None \<Rightarrow> None
                           | Some m \<Rightarrow> Some (parseInt_of (element1 m))),
            origin = origin',
            tastingNotes = tastingNotes',
            expertOverview = expertOverview',
            aboutOrigin = aboutOrigin',
            gradeAndSourcing = gradeAndSourcing',
            processingMethod = processingMethod',
            flavorProfile = flavorProfile',
            roastLevelDescription = roastLevelDescription'\<rparr>))))))))))))))))))"

text \<open>The object that a literal without the flags \<open>g\<close> and \<open>y\<close> creates.\<close>

definition plain_object :: "regex \<Rightarrow> regexp_object" where
  "plain_object r = \<lparr>pattern = r, global = False, sticky = False, lastIndex = 0\<rparr>"

text \<open>
  A digit pattern, \<^verbatim>\<open>/(\d+)/\<close>. As a sticky object that two calls share, it shows how a
  call of \<open>match\<close> can depend on the call before it.
\<close>

definition digitsRe :: regex where
  "digitsRe = \<lparr>before = Lit [], group = Plus Digit, after = Lit [],
     flag = \<lparr>ignoreCase = False, dotAll = False\<rparr>\<rparr>"
section \<open>The matcher finds exactly the matches of a pattern\<close>

lemma match_lit_iff:
  "rest \<in> set (match_lit fl p s) \<longleftrightarrow> (\<exists>w. s = w @ rest \<and> list_all2 (chr_eq fl) p w)"
proof (induction fl p s rule: match_lit.induct)
  case (1 fl s)
  then show ?case by auto
next
  case (2 fl p ps)
  then show ?case by (auto simp: list_all2_Cons1)
next
  case (3 fl p ps c cs)
  show ?case
  proof (cases "chr_eq fl p c")
    case True
    with 3 show ?thesis
      by (auto simp: list_all2_Cons1 Cons_eq_append_conv)
  next
    case False
    then show ?thesis
      by (auto simp: list_all2_Cons1 Cons_eq_append_conv)
  qed
qed

lemma split_Cons:
  "(\<exists>w. c # cs = w @ rest \<and> Q w) \<longleftrightarrow> (rest = c # cs \<and> Q []) \<or> (\<exists>w'. cs = w' @ rest \<and> Q (c # w'))"
  by (auto simp: Cons_eq_append_conv)

lemma star_greedy_iff:
  "rest \<in> set (star_greedy P s) \<longleftrightarrow> (\<exists>w. s = w @ rest \<and> list_all P w)"
proof (induction s)
  case Nil
  then show ?case by auto
next
  case (Cons c cs)
  then show ?case by (auto simp: split_Cons)
qed

lemma plus_greedy_iff:
  "rest \<in> set (plus_greedy P s) \<longleftrightarrow> (\<exists>w. s = w @ rest \<and> w \<noteq> [] \<and> list_all P w)"
proof (cases s)
  case Nil
  then show ?thesis by auto
next
  case (Cons c cs)
  then show ?thesis by (auto simp: split_Cons star_greedy_iff)
qed

lemma star_lazy_iff:
  "rest \<in> set (star_lazy P s) \<longleftrightarrow> (\<exists>w. s = w @ rest \<and> list_all P w)"
proof (induction s)
  case Nil
  then show ?case by auto
next
  case (Cons c cs)
  then show ?case by (auto simp: split_Cons)
qed

lemma bt_iff: "rest \<in> set (bt fl r s) \<longleftrightarrow> (\<exists>w. s = w @ rest \<and> den fl r w rest)"
proof (induction r arbitrary: s rest)
  case (Lit p)
  then show ?case by (simp add: match_lit_iff)
next
  case (One k)
  then show ?case by (cases s) auto
next
  case (Star k)
  then show ?case by (simp add: star_greedy_iff)
next
  case (Plus k)
  then show ?case by (simp add: plus_greedy_iff)
next
  case (LazyStar k)
  then show ?case by (simp add: star_lazy_iff)
next
  case (Seq a b)
  show ?case
  proof
    assume "rest \<in> set (bt fl (Seq a b) s)"
    then obtain mid where m: "mid \<in> set (bt fl a s)" "rest \<in> set (bt fl b mid)"
      by auto
    from m(1) obtain u where u: "s = u @ mid" "den fl a u mid"
      using Seq.IH(1) by blast
    from m(2) obtain v where v: "mid = v @ rest" "den fl b v rest"
      using Seq.IH(2) by blast
    from u v have "s = (u @ v) @ rest \<and> den fl (Seq a b) (u @ v) rest"
      by auto
    then show "\<exists>w. s = w @ rest \<and> den fl (Seq a b) w rest" by blast
  next
    assume "\<exists>w. s = w @ rest \<and> den fl (Seq a b) w rest"
    then obtain u v where uv: "s = (u @ v) @ rest" "den fl a u (v @ rest)" "den fl b v rest"
      by auto
    from uv(1,2) have "v @ rest \<in> set (bt fl a s)"
      using Seq.IH(1)[of "v @ rest" s] by auto
    moreover from uv(3) have "rest \<in> set (bt fl b (v @ rest))"
      using Seq.IH(2)[of rest "v @ rest"] by auto
    ultimately show "rest \<in> set (bt fl (Seq a b) s)" by auto
  qed
next
  case (Alt a b)
  then show ?case by auto
next
  case (Ahead r)
  have "bt fl r s \<noteq> [] \<longleftrightarrow> (\<exists>x. x \<in> set (bt fl r s))"
    by (cases "bt fl r s") auto
  with Ahead show ?case by auto
next
  case End
  then show ?case by auto
qed

lemma bt_nonempty_iff: "bt fl r s \<noteq> [] \<longleftrightarrow> (\<exists>w rest. s = w @ rest \<and> den fl r w rest)"
proof -
  have "bt fl r s \<noteq> [] \<longleftrightarrow> (\<exists>x. x \<in> set (bt fl r s))"
    by (cases "bt fl r s") auto
  then show ?thesis by (auto simp: bt_iff)
qed

lemma captures_at_iff:
  "c \<in> set (captures_at r s) \<longleftrightarrow>
     (\<exists>w1 w3 rest. s = w1 @ c @ w3 @ rest
        \<and> den (flag r) (before r) w1 (c @ w3 @ rest)
        \<and> den (flag r) (group r) c (w3 @ rest)
        \<and> den (flag r) (after r) w3 rest)"
proof
  assume "c \<in> set (captures_at r s)"
  then obtain s1 s2 where s1: "s1 \<in> set (bt (flag r) (before r) s)"
    and s2: "s2 \<in> set (bt (flag r) (group r) s1)"
    and af: "bt (flag r) (after r) s2 \<noteq> []"
    and c: "c = take (length s1 - length s2) s1"
    by (auto simp: captures_at_def)
  from s1 obtain w1 where w1: "s = w1 @ s1" "den (flag r) (before r) w1 s1"
    by (auto simp: bt_iff)
  from s2 obtain w2 where w2: "s1 = w2 @ s2" "den (flag r) (group r) w2 s2"
    by (auto simp: bt_iff)
  from af obtain w3 rest where w3: "s2 = w3 @ rest" "den (flag r) (after r) w3 rest"
    by (auto simp: bt_nonempty_iff)
  from c w2(1) have "c = w2" by simp
  with w1 w2 w3 show "\<exists>w1 w3 rest. s = w1 @ c @ w3 @ rest
        \<and> den (flag r) (before r) w1 (c @ w3 @ rest)
        \<and> den (flag r) (group r) c (w3 @ rest)
        \<and> den (flag r) (after r) w3 rest"
    by auto
next
  assume "\<exists>w1 w3 rest. s = w1 @ c @ w3 @ rest
        \<and> den (flag r) (before r) w1 (c @ w3 @ rest)
        \<and> den (flag r) (group r) c (w3 @ rest)
        \<and> den (flag r) (after r) w3 rest"
  then obtain w1 w3 rest where h: "s = w1 @ c @ w3 @ rest"
        "den (flag r) (before r) w1 (c @ w3 @ rest)"
        "den (flag r) (group r) c (w3 @ rest)"
        "den (flag r) (after r) w3 rest"
    by blast
  have s1: "c @ w3 @ rest \<in> set (bt (flag r) (before r) s)"
    using h(1,2) by (auto simp: bt_iff)
  have s2: "w3 @ rest \<in> set (bt (flag r) (group r) (c @ w3 @ rest))"
    using h(3) by (auto simp: bt_iff)
  have af: "bt (flag r) (after r) (w3 @ rest) \<noteq> []"
    using h(4) by (auto simp: bt_nonempty_iff)
  have "take (length (c @ w3 @ rest) - length (w3 @ rest)) (c @ w3 @ rest) = c"
    by simp
  with s1 s2 af show "c \<in> set (captures_at r s)"
    unfolding captures_at_def by force
qed

lemma match_at_None_iff: "match_at r s = None \<longleftrightarrow> captures_at r s = []"
  by (simp add: match_at_def split: list.splits)

lemma match_at_Some_in: "match_at r s = Some c \<Longrightarrow> c \<in> set (captures_at r s)"
  by (auto simp: match_at_def split: list.splits)

lemma match_at_Some_unique:
  assumes "c \<in> set (captures_at r s)" "\<And>c'. c' \<in> set (captures_at r s) \<Longrightarrow> c' = c"
  shows "match_at r s = Some c"
proof (cases "captures_at r s")
  case Nil
  with assms(1) show ?thesis by simp
next
  case (Cons x xs)
  with assms(2)[of x] show ?thesis by (simp add: match_at_def)
qed

lemma js_match_None_iff:
  "js_match r s = None \<longleftrightarrow> (\<forall>pre t. s = pre @ t \<longrightarrow> match_at r t = None)"
proof (induction s)
  case Nil
  then show ?case by simp
next
  case (Cons c cs)
  show ?case
  proof (cases "match_at r (c # cs)")
    case None
    with Cons show ?thesis
      by (auto simp: Cons_eq_append_conv)
  next
    case (Some a)
    then have "\<not> (\<forall>pre t. c # cs = pre @ t \<longrightarrow> match_at r t = None)"
      by (metis append_Nil option.distinct(1))
    with Some show ?thesis by simp
  qed
qed

lemma no_match_before_Nil: "no_match_before r [] t"
  by (simp add: no_match_before_def)

lemma no_match_before_Cons:
  "no_match_before r (x # pre) t \<longleftrightarrow> match_at r (x # pre @ t) = None \<and> no_match_before r pre t"
proof
  assume h: "no_match_before r (x # pre) t"
  have "match_at r (x # pre @ t) = None"
    using h[unfolded no_match_before_def, rule_format, of "[]" "x # pre"] by simp
  moreover have "no_match_before r pre t"
    unfolding no_match_before_def
  proof (intro allI impI)
    fix p1 p2 assume "pre = p1 @ p2 \<and> p2 \<noteq> []"
    then show "match_at r (p2 @ t) = None"
      using h[unfolded no_match_before_def, rule_format, of "x # p1" p2] by simp
  qed
  ultimately show "match_at r (x # pre @ t) = None \<and> no_match_before r pre t" ..
next
  assume h: "match_at r (x # pre @ t) = None \<and> no_match_before r pre t"
  show "no_match_before r (x # pre) t"
    unfolding no_match_before_def
  proof (intro allI impI)
    fix p1 p2 assume g: "x # pre = p1 @ p2 \<and> p2 \<noteq> []"
    show "match_at r (p2 @ t) = None"
    proof (cases p1)
      case Nil
      with g h show ?thesis by auto
    next
      case (Cons y ys)
      with g have "pre = ys @ p2 \<and> p2 \<noteq> []" by simp
      with h show ?thesis unfolding no_match_before_def by blast
    qed
  qed
qed

lemma js_match_here: "match_at r t = Some c \<Longrightarrow> js_match r t = Some c"
  by (cases t) simp_all

lemma js_match_skip: "no_match_before r pre t \<Longrightarrow> js_match r (pre @ t) = js_match r t"
  by (induction pre) (simp_all add: no_match_before_Cons)

lemma js_match_first:
  "match_at r t = Some c \<Longrightarrow> no_match_before r pre t \<Longrightarrow> js_match r (pre @ t) = Some c"
  by (simp add: js_match_skip js_match_here)

lemma js_match_Some:
  "js_match r s = Some c \<Longrightarrow>
     \<exists>pre t. s = pre @ t \<and> match_at r t = Some c \<and> no_match_before r pre t"
proof (induction s)
  case Nil
  then have "[] = [] @ [] \<and> match_at r [] = Some c \<and> no_match_before r [] []"
    by (simp add: no_match_before_Nil)
  then show ?case by (intro exI)
next
  case (Cons x xs)
  show ?case
  proof (cases "match_at r (x # xs)")
    case None
    with Cons.prems have "js_match r xs = Some c" by simp
    from Cons.IH[OF this] obtain pre t where pt: "xs = pre @ t" "match_at r t = Some c"
      "no_match_before r pre t"
      by (elim exE conjE)
    from None pt(1) have "match_at r (x # pre @ t) = None" by simp
    with pt have "x # xs = (x # pre) @ t \<and> match_at r t = Some c \<and> no_match_before r (x # pre) t"
      by (simp add: no_match_before_Cons)
    then show ?thesis by (intro exI)
  next
    case (Some a)
    with Cons.prems have "a = c" by simp
    with Some have "x # xs = [] @ (x # xs) \<and> match_at r (x # xs) = Some c
        \<and> no_match_before r [] (x # xs)"
      by (simp add: no_match_before_Nil)
    then show ?thesis by (intro exI)
  qed
qed

section \<open>The roast level pattern\<close>

lemma chr_eq_i: "chr_eq flags_i = (\<lambda>a b. canonicalize a = canonicalize b)"
  by (intro ext) (simp add: chr_eq_def flags_i_def)

lemma den_Lit_i: "list_all2 (chr_eq flags_i) p w = same_letters p w"
  by (simp add: same_letters_def chr_eq_i)

lemma in_cls_partial:
  "in_cls fl Space = is_space" "in_cls fl Digit = is_digit" "in_cls fl NotNewline = (\<lambda>c. c \<noteq> 10)"
  "in_cls fl Upper = is_upper" "in_cls fl Lower = is_lower"
  by (intro ext, simp)+

lemma canonicalize_eq_nonletter:
  "\<not> is_lower p \<Longrightarrow> \<not> is_upper p \<Longrightarrow> (canonicalize p = canonicalize c) = (c = p)"
  by (auto simp: canonicalize_def is_lower_def is_upper_def)

lemma same_letters_Nil: "same_letters [] w = (w = [])"
  by (simp add: same_letters_def)

lemma same_letters_Cons:
  "same_letters (p # ps) w = (\<exists>c cs. w = c # cs \<and> canonicalize p = canonicalize c \<and> same_letters ps cs)"
  by (simp add: same_letters_def list_all2_Cons1)

lemma same_letters_length: "same_letters p w \<Longrightarrow> length w = length p"
  by (simp add: same_letters_def list_all2_lengthD)

lemma same_letters_slash5: "same_letters (js ''/5'') w = (w = js ''/5'')"
  by (auto simp: js_def same_letters_Cons same_letters_Nil canonicalize_eq_nonletter is_lower_def is_upper_def)

lemma roast_before_den:
  "den flags_i (before roastRe) w ctx \<longleftrightarrow>
     (\<exists>r ws1 l ws2 p ws3. w = r @ ws1 @ l @ ws2 @ p @ ws3
        \<and> same_letters (js ''Roast'') r \<and> list_all is_space ws1
        \<and> same_letters (js ''level'') l \<and> list_all is_space ws2
        \<and> same_letters (js ''Profile:'') p \<and> list_all is_space ws3)"
  (is "?L \<longleftrightarrow> ?R")
proof
  assume ?L
  then obtain r v1 ws1 v2 l v3 ws2 v4 p ws3 where
    "w = r @ v1" "same_letters (js ''Roast'') r" "v1 = ws1 @ v2" "list_all is_space ws1"
    "v2 = l @ v3" "same_letters (js ''level'') l" "v3 = ws2 @ v4" "list_all is_space ws2"
    "v4 = p @ ws3" "same_letters (js ''Profile:'') p" "list_all is_space ws3"
    unfolding roastRe_def by (auto simp: den_Lit_i in_cls_partial)
  then have "w = r @ ws1 @ l @ ws2 @ p @ ws3
        \<and> same_letters (js ''Roast'') r \<and> list_all is_space ws1
        \<and> same_letters (js ''level'') l \<and> list_all is_space ws2
        \<and> same_letters (js ''Profile:'') p \<and> list_all is_space ws3"
    by simp
  then show ?R by (intro exI)
next
  assume ?R
  then obtain r ws1 l ws2 p ws3 where h: "w = r @ ws1 @ l @ ws2 @ p @ ws3"
        "same_letters (js ''Roast'') r" "list_all is_space ws1"
        "same_letters (js ''level'') l" "list_all is_space ws2"
        "same_letters (js ''Profile:'') p" "list_all is_space ws3"
    by (elim exE conjE)
  have "den flags_i (seqs [Lit (js ''Profile:''), Star Space]) (p @ ws3) ctx"
    using h(6,7) by (simp add: den_Lit_i in_cls_partial) (intro exI[of _ p] exI[of _ ws3], simp)
  then have "den flags_i (seqs [Star Space, Lit (js ''Profile:''), Star Space]) (ws2 @ p @ ws3) ctx"
    using h(5) by (simp add: in_cls_partial) (intro exI[of _ ws2] exI[of _ "p @ ws3"], simp)
  then have "den flags_i (seqs [Lit (js ''level''), Star Space, Lit (js ''Profile:''), Star Space])
      (l @ ws2 @ p @ ws3) ctx"
    using h(4) by (simp add: den_Lit_i in_cls_partial) (intro exI[of _ l] exI[of _ "ws2 @ p @ ws3"], simp)
  then have "den flags_i (seqs [Star Space, Lit (js ''level''), Star Space, Lit (js ''Profile:''), Star Space])
      (ws1 @ l @ ws2 @ p @ ws3) ctx"
    using h(3) by (simp add: in_cls_partial) (intro exI[of _ ws1] exI[of _ "l @ ws2 @ p @ ws3"], simp)
  then have "den flags_i (seqs [Lit (js ''Roast''), Star Space, Lit (js ''level''), Star Space, Lit (js ''Profile:''), Star Space])
      (r @ ws1 @ l @ ws2 @ p @ ws3) ctx"
    using h(2) by (simp add: den_Lit_i in_cls_partial) (intro exI[of _ r] exI[of _ "ws1 @ l @ ws2 @ p @ ws3"], simp)
  with h(1) show ?L by (simp add: roastRe_def)
qed

lemma roastRe_fields:
  "flag roastRe = flags_i" "group roastRe = Plus Digit" "after roastRe = Lit (js ''/5'')"
  by (simp_all add: roastRe_def)

lemma roast_captures_iff:
  "c \<in> set (captures_at roastRe t) \<longleftrightarrow> (\<exists>rest. roast_phrase t c rest)"
proof
  assume "c \<in> set (captures_at roastRe t)"
  then obtain w1 w3 rest where h: "t = w1 @ c @ w3 @ rest"
      "den flags_i (before roastRe) w1 (c @ w3 @ rest)"
      "den flags_i (Plus Digit) c (w3 @ rest)"
      "den flags_i (Lit (js ''/5'')) w3 rest"
    unfolding captures_at_iff roastRe_fields by (elim exE conjE)
  from h(2) obtain r ws1 l ws2 p ws3 where b: "w1 = r @ ws1 @ l @ ws2 @ p @ ws3"
        "same_letters (js ''Roast'') r" "list_all is_space ws1"
        "same_letters (js ''level'') l" "list_all is_space ws2"
        "same_letters (js ''Profile:'') p" "list_all is_space ws3"
    unfolding roast_before_den by (elim exE conjE)
  from h(3) have d: "c \<noteq> []" "list_all is_digit c"
    by (simp_all add: in_cls_partial)
  from h(4) have "w3 = js ''/5''"
    by (simp add: den_Lit_i same_letters_slash5)
  with h(1) b d have "t = r @ ws1 @ l @ ws2 @ p @ ws3 @ c @ js ''/5'' @ rest
        \<and> same_letters (js ''Roast'') r \<and> list_all is_space ws1
        \<and> same_letters (js ''level'') l \<and> list_all is_space ws2
        \<and> same_letters (js ''Profile:'') p \<and> list_all is_space ws3
        \<and> c \<noteq> [] \<and> list_all is_digit c"
    by simp
  then have "roast_phrase t c rest"
    unfolding roast_phrase_def by (intro exI)
  then show "\<exists>rest. roast_phrase t c rest" ..
next
  assume "\<exists>rest. roast_phrase t c rest"
  then obtain rest r ws1 l ws2 p ws3 where h: "t = r @ ws1 @ l @ ws2 @ p @ ws3 @ c @ js ''/5'' @ rest"
        "same_letters (js ''Roast'') r" "list_all is_space ws1"
        "same_letters (js ''level'') l" "list_all is_space ws2"
        "same_letters (js ''Profile:'') p" "list_all is_space ws3"
        "c \<noteq> []" "list_all is_digit c"
    unfolding roast_phrase_def by (elim exE conjE)
  let ?w1 = "r @ ws1 @ l @ ws2 @ p @ ws3"
  have "den flags_i (before roastRe) ?w1 (c @ js ''/5'' @ rest)"
    unfolding roast_before_den
    by (intro exI[of _ r] exI[of _ ws1] exI[of _ l] exI[of _ ws2] exI[of _ p] exI[of _ ws3]
        conjI refl h(2-7))
  moreover have "den flags_i (Plus Digit) c (js ''/5'' @ rest)"
    using h(8,9) by (simp add: in_cls_partial)
  moreover have "den flags_i (Lit (js ''/5'')) (js ''/5'') rest"
    by (simp add: den_Lit_i same_letters_slash5)
  moreover have "t = ?w1 @ c @ js ''/5'' @ rest"
    using h(1) by simp
  ultimately have "t = ?w1 @ c @ js ''/5'' @ rest
        \<and> den (flag roastRe) (before roastRe) ?w1 (c @ js ''/5'' @ rest)
        \<and> den (flag roastRe) (group roastRe) c (js ''/5'' @ rest)
        \<and> den (flag roastRe) (after roastRe) (js ''/5'') rest"
    by (simp add: roastRe_fields)
  then show "c \<in> set (captures_at roastRe t)"
    unfolding captures_at_iff by (intro exI)
qed

lemma span_unique:
  assumes "xs @ ys = xs' @ ys'" "list_all P xs" "list_all P xs'"
    "ys = [] \<or> \<not> P (hd ys)" "ys' = [] \<or> \<not> P (hd ys')"
  shows "xs = xs' \<and> ys = ys'"
proof -
  have tw: "\<And>as bs. list_all P as \<Longrightarrow> bs = [] \<or> \<not> P (hd bs) \<Longrightarrow> takeWhile P (as @ bs) = as"
  proof -
    fix as bs :: "'a list" assume a: "list_all P as" "bs = [] \<or> \<not> P (hd bs)"
    from a(2) have "takeWhile P bs = []" by (cases bs) auto
    with a(1) show "takeWhile P (as @ bs) = as"
      by (simp add: takeWhile_append2 list_all_iff)
  qed
  have "xs = takeWhile P (xs @ ys)" using tw[OF assms(2,4)] by simp
  also have "\<dots> = takeWhile P (xs' @ ys')" using assms(1) by simp
  also have "\<dots> = xs'" using tw[OF assms(3,5)] by simp
  finally have "xs = xs'" .
  with assms(1) show ?thesis by simp
qed

lemma same_length_unique:
  "xs @ ys = xs' @ ys' \<Longrightarrow> length xs = length xs' \<Longrightarrow> xs = xs' \<and> ys = ys'"
  by simp

lemma letter_not_space_digit:
  "canonicalize p = canonicalize c \<Longrightarrow> is_lower p \<or> is_upper p \<Longrightarrow> \<not> is_space c \<and> \<not> is_digit c"
  by (auto simp: canonicalize_def is_lower_def is_upper_def is_space_def is_digit_def split: if_splits)

lemma same_letters_head:
  assumes "same_letters (p # ps) w" "is_lower p \<or> is_upper p"
  shows "w @ x \<noteq> [] \<and> \<not> is_space (hd (w @ x))"
proof -
  from assms(1) obtain c cs where "w = c # cs" "canonicalize p = canonicalize c"
    by (auto simp: same_letters_Cons)
  with letter_not_space_digit[OF this(2) assms(2)] show ?thesis by simp
qed

lemma digit_not_space: "is_digit c \<Longrightarrow> \<not> is_space c"
  by (auto simp: is_digit_def is_space_def)

lemma roast_phrase_unique:
  assumes "roast_phrase t ds rest" "roast_phrase t ds' rest'"
  shows "ds = ds'"
proof -
  from assms(1) obtain r ws1 l ws2 p ws3 where h: "t = r @ ws1 @ l @ ws2 @ p @ ws3 @ ds @ js ''/5'' @ rest"
        "same_letters (js ''Roast'') r" "list_all is_space ws1"
        "same_letters (js ''level'') l" "list_all is_space ws2"
        "same_letters (js ''Profile:'') p" "list_all is_space ws3"
        "ds \<noteq> []" "list_all is_digit ds"
    unfolding roast_phrase_def by (elim exE conjE)
  from assms(2) obtain r' ws1' l' ws2' p' ws3' where h': "t = r' @ ws1' @ l' @ ws2' @ p' @ ws3' @ ds' @ js ''/5'' @ rest'"
        "same_letters (js ''Roast'') r'" "list_all is_space ws1'"
        "same_letters (js ''level'') l'" "list_all is_space ws2'"
        "same_letters (js ''Profile:'') p'" "list_all is_space ws3'"
        "ds' \<noteq> []" "list_all is_digit ds'"
    unfolding roast_phrase_def by (elim exE conjE)
  have e0: "r @ (ws1 @ l @ ws2 @ p @ ws3 @ ds @ js ''/5'' @ rest)
          = r' @ (ws1' @ l' @ ws2' @ p' @ ws3' @ ds' @ js ''/5'' @ rest')"
    using h(1) h'(1) by simp
  have "length r = length r'"
    using same_letters_length[OF h(2)] same_letters_length[OF h'(2)] by simp
  from same_length_unique[OF e0 this]
  have e1: "ws1 @ (l @ ws2 @ p @ ws3 @ ds @ js ''/5'' @ rest)
          = ws1' @ (l' @ ws2' @ p' @ ws3' @ ds' @ js ''/5'' @ rest')"
    by simp
  have hl: "same_letters (108 # js ''evel'') l" "same_letters (108 # js ''evel'') l'"
    using h(4) h'(4) by (simp_all add: js_def)
  have "l @ ws2 @ p @ ws3 @ ds @ js ''/5'' @ rest = [] \<or>
        \<not> is_space (hd (l @ ws2 @ p @ ws3 @ ds @ js ''/5'' @ rest))"
    using same_letters_head[OF hl(1), of "ws2 @ p @ ws3 @ ds @ js ''/5'' @ rest"]
    by (simp add: is_lower_def)
  moreover have "l' @ ws2' @ p' @ ws3' @ ds' @ js ''/5'' @ rest' = [] \<or>
        \<not> is_space (hd (l' @ ws2' @ p' @ ws3' @ ds' @ js ''/5'' @ rest'))"
    using same_letters_head[OF hl(2), of "ws2' @ p' @ ws3' @ ds' @ js ''/5'' @ rest'"]
    by (simp add: is_lower_def)
  ultimately have e2: "l @ (ws2 @ p @ ws3 @ ds @ js ''/5'' @ rest)
          = l' @ (ws2' @ p' @ ws3' @ ds' @ js ''/5'' @ rest')"
    using span_unique[OF e1 h(3) h'(3)] by simp
  have "length l = length l'"
    using same_letters_length[OF h(4)] same_letters_length[OF h'(4)] by simp
  from same_length_unique[OF e2 this]
  have e3: "ws2 @ (p @ ws3 @ ds @ js ''/5'' @ rest) = ws2' @ (p' @ ws3' @ ds' @ js ''/5'' @ rest')"
    by simp
  have hp: "same_letters (80 # js ''rofile:'') p" "same_letters (80 # js ''rofile:'') p'"
    using h(6) h'(6) by (simp_all add: js_def)
  have "p @ ws3 @ ds @ js ''/5'' @ rest = [] \<or> \<not> is_space (hd (p @ ws3 @ ds @ js ''/5'' @ rest))"
    using same_letters_head[OF hp(1), of "ws3 @ ds @ js ''/5'' @ rest"]
    by (simp add: is_upper_def)
  moreover have "p' @ ws3' @ ds' @ js ''/5'' @ rest' = [] \<or>
        \<not> is_space (hd (p' @ ws3' @ ds' @ js ''/5'' @ rest'))"
    using same_letters_head[OF hp(2), of "ws3' @ ds' @ js ''/5'' @ rest'"]
    by (simp add: is_upper_def)
  ultimately have e4: "p @ (ws3 @ ds @ js ''/5'' @ rest) = p' @ (ws3' @ ds' @ js ''/5'' @ rest')"
    using span_unique[OF e3 h(5) h'(5)] by simp
  have "length p = length p'"
    using same_letters_length[OF h(6)] same_letters_length[OF h'(6)] by simp
  from same_length_unique[OF e4 this]
  have e5: "ws3 @ (ds @ js ''/5'' @ rest) = ws3' @ (ds' @ js ''/5'' @ rest')"
    by simp
  have "ds @ js ''/5'' @ rest = [] \<or> \<not> is_space (hd (ds @ js ''/5'' @ rest))"
    using h(8,9) by (cases ds) (auto dest: digit_not_space)
  moreover have "ds' @ js ''/5'' @ rest' = [] \<or> \<not> is_space (hd (ds' @ js ''/5'' @ rest'))"
    using h'(8,9) by (cases ds') (auto dest: digit_not_space)
  ultimately have e6: "ds @ (js ''/5'' @ rest) = ds' @ (js ''/5'' @ rest')"
    using span_unique[OF e5 h(7) h'(7)] by simp
  have "js ''/5'' @ rest = [] \<or> \<not> is_digit (hd (js ''/5'' @ rest))"
    by (simp add: js_def is_digit_def)
  moreover have "js ''/5'' @ rest' = [] \<or> \<not> is_digit (hd (js ''/5'' @ rest'))"
    by (simp add: js_def is_digit_def)
  ultimately show "ds = ds'"
    using span_unique[OF e6 h(9) h'(9)] by simp
qed

lemma roast_match_at:
  "roast_phrase t ds rest \<Longrightarrow> match_at roastRe t = Some ds"
proof (rule match_at_Some_unique)
  assume h: "roast_phrase t ds rest"
  then show "ds \<in> set (captures_at roastRe t)"
    unfolding roast_captures_iff ..
  fix c' assume "c' \<in> set (captures_at roastRe t)"
  then obtain rest' where "roast_phrase t c' rest'"
    unfolding roast_captures_iff ..
  from roast_phrase_unique[OF this h] show "c' = ds" .
qed

lemma roast_match_at_None:
  "match_at roastRe t = None \<longleftrightarrow> \<not> (\<exists>ds rest. roast_phrase t ds rest)"
proof
  assume n: "match_at roastRe t = None"
  show "\<not> (\<exists>ds rest. roast_phrase t ds rest)"
  proof
    assume "\<exists>ds rest. roast_phrase t ds rest"
    then obtain ds rest where "roast_phrase t ds rest" by (elim exE)
    from roast_match_at[OF this] n show False by simp
  qed
next
  assume n: "\<not> (\<exists>ds rest. roast_phrase t ds rest)"
  show "match_at roastRe t = None"
  proof (cases "match_at roastRe t")
    case None
    then show ?thesis .
  next
    case (Some c)
    from match_at_Some_in[OF this] obtain rest where "roast_phrase t c rest"
      unfolding roast_captures_iff ..
    with n show ?thesis by blast
  qed
qed

lemma parseInt_digits:
  "ds \<noteq> [] \<Longrightarrow> list_all is_digit ds \<Longrightarrow> parseInt ds = to_double (digits_value ds)"
proof -
  assume a: "ds \<noteq> []" "list_all is_digit ds"
  then have tw: "takeWhile is_digit ds = ds"
    by (simp add: takeWhile_eq_all_conv list_all_iff)
  show ?thesis
    unfolding parseInt_def Let_def tw using a(1) by simp
qed

lemma roast_phrase_digits: "roast_phrase t ds rest \<Longrightarrow> ds \<noteq> [] \<and> list_all is_digit ds"
  unfolding roast_phrase_def by (elim exE conjE) simp

lemma js_match_roast_None:
  "js_match roastRe s = None \<longleftrightarrow> \<not> (\<exists>pre ds. roast_phrase_at s pre ds)"
  unfolding js_match_None_iff roast_match_at_None roast_phrase_at_def by blast

lemma js_match_roast_first:
  assumes "roast_phrase_at s pre ds"
    and "\<And>pre' ds'. roast_phrase_at s pre' ds' \<Longrightarrow> length pre \<le> length pre'"
  shows "js_match roastRe s = Some ds"
proof -
  from assms(1) obtain t rest where t: "s = pre @ t" "roast_phrase t ds rest"
    unfolding roast_phrase_at_def by (elim exE conjE)
  have "no_match_before roastRe pre t"
    unfolding no_match_before_def
  proof (intro allI impI)
    fix p1 p2 assume p: "pre = p1 @ p2 \<and> p2 \<noteq> []"
    show "match_at roastRe (p2 @ t) = None"
    proof (rule ccontr)
      assume "match_at roastRe (p2 @ t) \<noteq> None"
      then obtain c rest' where "roast_phrase (p2 @ t) c rest'"
        unfolding roast_match_at_None by blast
      with t(1) p have "s = p1 @ (p2 @ t) \<and> roast_phrase (p2 @ t) c rest'" by simp
      then have "roast_phrase_at s p1 c"
        unfolding roast_phrase_at_def by (intro exI)
      from assms(2)[OF this] p show False by simp
    qed
  qed
  with roast_match_at[OF t(2)] t(1) show ?thesis
    by (simp add: js_match_first)
qed

lemma to_double_small: "n < 2 ^ 53 \<Longrightarrow> to_double n = Num n"
  by (simp add: to_double_def)

lemma roastLevel_parse: "roastLevel (parseAnalysis s) = map_option parseInt (js_match roastRe s)"
  by (simp add: parseAnalysis_def Let_def split: option.splits)

text \<open>Unfolding the matcher on a concrete input.\<close>

lemmas regex_eval =
  captures_at_def match_at_def flags_i_def flags_s_def chr_eq_def canonicalize_def
  is_lower_def is_upper_def is_space_def is_digit_def is_line_terminator_def js_def

lemma roast_first_small:
  assumes "first_roast_digits s ds"
  shows "js_match roastRe s = Some ds" "ds \<noteq> []" "list_all is_digit ds"
proof -
  from assms obtain pre where p: "roast_phrase_at s pre ds"
    "\<forall>pre' ds'. roast_phrase_at s pre' ds' \<longrightarrow> length pre \<le> length pre'"
    unfolding first_roast_digits_def by (elim exE conjE)
  from p(2) have "\<And>pre' ds'. roast_phrase_at s pre' ds' \<Longrightarrow> length pre \<le> length pre'"
    by blast
  from js_match_roast_first[OF p(1) this] show "js_match roastRe s = Some ds" .
  from p(1) obtain t rest where "roast_phrase t ds rest"
    unfolding roast_phrase_at_def by (elim exE conjE)
  from roast_phrase_digits[OF this] show "ds \<noteq> []" "list_all is_digit ds" by simp_all
qed

lemma to_double_large:
  assumes "2 ^ 53 \<le> n"
  shows "to_double n = PosInfinity \<or> (\<exists>v. 2 ^ 52 \<le> v \<and> to_double n = Num v)"
proof -
  define e where "e = floorlog 2 n - 53"
  define q where "q = n div 2 ^ e"
  define r where "r = n mod 2 ^ e"
  define q' where "q' = (if 2 ^ (e - 1) < r \<or> (r = 2 ^ (e - 1) \<and> odd q) then q + 1 else q)"
  have n0: "0 < n" using assms by (simp add: order.strict_trans2[of 0 "2 ^ 53" n])
  have L: "54 \<le> floorlog 2 n"
    using floorlog_ge_SucI[of 2 53 n] assms by simp
  have "2 ^ (floorlog 2 n - 1) \<le> n"
    using floorlog_bounds[of n 2] n0 by simp
  moreover have "floorlog 2 n - 1 = 52 + e"
    using L by (simp add: e_def)
  ultimately have "(2::nat) ^ 52 * 2 ^ e \<le> n"
    by (simp add: power_add)
  then have "(2 ^ 52 * 2 ^ e) div 2 ^ e \<le> n div 2 ^ e"
    by (rule div_le_mono)
  then have q52: "2 ^ 52 \<le> q" by (simp add: q_def)
  have "q \<le> q'" by (simp add: q'_def)
  moreover have "q' \<le> q' * 2 ^ e" by simp
  ultimately have big: "2 ^ 52 \<le> q' * 2 ^ e" using q52 by linarith
  have td: "to_double n = (if 2 ^ 1024 \<le> q' * 2 ^ e then PosInfinity else Num (q' * 2 ^ e))"
    using assms by (simp add: to_double_def Let_def e_def q_def r_def q'_def)
  show ?thesis
  proof (cases "2 ^ 1024 \<le> q' * 2 ^ e")
    case True
    with td show ?thesis by simp
  next
    case False
    with td have "2 ^ 52 \<le> q' * 2 ^ e \<and> to_double n = Num (q' * 2 ^ e)"
      using big by simp
    then show ?thesis by (intro disjI2 exI)
  qed
qed

lemma roast_card_large:
  assumes "5 < n"
  shows "roast_level_card (Some (to_double n)) = RoastScale [True, True, True, True, True] (to_double n)"
proof (cases "n < 2 ^ 53")
  case True
  with assms show ?thesis by (simp add: to_double_small)
next
  case False
  then have "2 ^ 53 \<le> n" by simp
  from to_double_large[OF this] show ?thesis
  proof
    assume "to_double n = PosInfinity"
    then show ?thesis by simp
  next
    assume "\<exists>v. 2 ^ 52 \<le> v \<and> to_double n = Num v"
    then obtain v where v: "(2::nat) ^ 52 \<le> v" "to_double n = Num v" by (elim exE conjE)
    from v(1) have "5 \<le> v" by simp
    with v(2) show ?thesis by simp
  qed
qed

lemma roast_card_zero:
  "roast_level_card (Some (to_double 0)) = RoastPlaceholder (js ''Roast level will appear after analysis'')"
  by (simp add: to_double_small)

lemma roast_cell_view:
  "CoffeeProductView p = Some v \<Longrightarrow>
     roast_cell (details v) = roast_level_card (map_option parseInt (js_match roastRe (analysis p)))"
  by (auto simp: CoffeeProductView_def CoffeeDetailsGrid_def roastLevel_parse Let_def split: if_splits)

lemma roast_phrase_plain:
  assumes "ds \<noteq> []" "list_all is_digit ds"
  shows "roast_phrase (js ''Roast level Profile: '' @ ds @ js ''/5'' @ rest) ds rest"
  unfolding roast_phrase_def
  apply (rule exI[of _ "js ''Roast''"])
  apply (rule exI[of _ "js '' ''"])
  apply (rule exI[of _ "js ''level''"])
  apply (rule exI[of _ "js '' ''"])
  apply (rule exI[of _ "js ''Profile:''"])
  apply (rule exI[of _ "js '' ''"])
  using assms
  apply (simp add: js_def same_letters_def is_space_def)
  done

lemma first_roast_digits_here: "roast_phrase t ds rest \<Longrightarrow> first_roast_digits t ds"
  unfolding first_roast_digits_def roast_phrase_at_def
  by (rule exI[of _ "[]"]) auto

lemma fl54: "floorlog 2 9007199254740993 = 54"
  by (simp add: compute_floorlog)

lemma to_double_example: "to_double 9007199254740993 = Num 9007199254740992"
  by (simp add: to_double_def Let_def fl54)

lemma js_match_roast_huge:
  "js_match roastRe (js ''Roast level Profile: 9007199254740993/5'') = Some (js ''9007199254740993'')"
  by (simp add: roastRe_def regex_eval)

lemma js_match_roast_twice:
  "js_match roastRe (js ''Roast level Profile: 3/5, not Roast level Profile: 0/5'') = Some (js ''3'')"
  by (simp add: roastRe_def regex_eval)

lemma parseInt_huge: "parseInt (js ''9007199254740993'') = Num 9007199254740992"
  by (simp add: parseInt_def digits_value_def js_def is_digit_def to_double_example)

lemma parseInt_3: "parseInt (js ''3'') = Num 3"
  by (simp add: parseInt_def digits_value_def js_def is_digit_def to_double_def)

section \<open>The origin patterns\<close>

lemma three_words_den:
  "den flags_i (seqs [Lit A, Star Space, Lit B, Star Space, Lit C, Star Space]) w ctx
     \<longleftrightarrow> three_words A B C w"
  (is "?L \<longleftrightarrow> ?R")
proof
  assume ?L
  then obtain a v1 ws1 v2 b v3 ws2 v4 c ws3 where
    "w = a @ v1" "same_letters A a" "v1 = ws1 @ v2" "list_all is_space ws1"
    "v2 = b @ v3" "same_letters B b" "v3 = ws2 @ v4" "list_all is_space ws2"
    "v4 = c @ ws3" "same_letters C c" "list_all is_space ws3"
    by (auto simp: den_Lit_i in_cls_partial)
  then have "w = a @ ws1 @ b @ ws2 @ c @ ws3
        \<and> same_letters A a \<and> list_all is_space ws1
        \<and> same_letters B b \<and> list_all is_space ws2
        \<and> same_letters C c \<and> list_all is_space ws3"
    by simp
  then show ?R unfolding three_words_def by (intro exI)
next
  assume ?R
  then obtain a ws1 b ws2 c ws3 where h: "w = a @ ws1 @ b @ ws2 @ c @ ws3"
        "same_letters A a" "list_all is_space ws1"
        "same_letters B b" "list_all is_space ws2"
        "same_letters C c" "list_all is_space ws3"
    unfolding three_words_def by (elim exE conjE)
  have "den flags_i (seqs [Lit C, Star Space]) (c @ ws3) ctx"
    using h(6,7) by (simp add: den_Lit_i in_cls_partial) (intro exI[of _ c] exI[of _ ws3], simp)
  then have "den flags_i (seqs [Star Space, Lit C, Star Space]) (ws2 @ c @ ws3) ctx"
    using h(5) by (simp add: in_cls_partial) (intro exI[of _ ws2] exI[of _ "c @ ws3"], simp)
  then have "den flags_i (seqs [Lit B, Star Space, Lit C, Star Space]) (b @ ws2 @ c @ ws3) ctx"
    using h(4) by (simp add: den_Lit_i in_cls_partial) (intro exI[of _ b] exI[of _ "ws2 @ c @ ws3"], simp)
  then have "den flags_i (seqs [Star Space, Lit B, Star Space, Lit C, Star Space])
      (ws1 @ b @ ws2 @ c @ ws3) ctx"
    using h(3) by (simp add: in_cls_partial) (intro exI[of _ ws1] exI[of _ "b @ ws2 @ c @ ws3"], simp)
  then have "den flags_i (seqs [Lit A, Star Space, Lit B, Star Space, Lit C, Star Space])
      (a @ ws1 @ b @ ws2 @ c @ ws3) ctx"
    using h(2) by (simp add: den_Lit_i in_cls_partial) (intro exI[of _ a] exI[of _ "ws1 @ b @ ws2 @ c @ ws3"], simp)
  with h(1) show ?L by simp
qed

lemma js_match_Some_capture:
  "js_match r s = Some c \<Longrightarrow> \<exists>pre t. s = pre @ t \<and> c \<in> set (captures_at r t)"
proof -
  assume "js_match r s = Some c"
  from js_match_Some[OF this] obtain pre t where "s = pre @ t" "match_at r t = Some c"
    by (elim exE conjE)
  with match_at_Some_in[of r t c] have "s = pre @ t \<and> c \<in> set (captures_at r t)" by simp
  then show ?thesis by (intro exI)
qed

lemma js_match_not_None:
  "c \<in> set (captures_at r t) \<Longrightarrow> js_match r (pre @ t) \<noteq> None"
proof
  assume c: "c \<in> set (captures_at r t)" and n: "js_match r (pre @ t) = None"
  from n have "match_at r t = None"
    unfolding js_match_None_iff by blast
  with c show False by (simp add: match_at_None_iff)
qed

text \<open>A pattern of the shape header, \<open>([^\n]+)\<close> under the \<open>i\<close> flag.\<close>

lemma line_pattern_captures:
  assumes "flag r = flags_i" "group r = Plus NotNewline" "after r = Lit []"
    and "\<And>w ctx. den flags_i (before r) w ctx \<longleftrightarrow> header w"
  shows "c \<in> set (captures_at r t) \<longleftrightarrow> (\<exists>h rest. t = h @ c @ rest \<and> header h \<and> c \<noteq> [] \<and> 10 \<notin> set c)"
proof
  assume "c \<in> set (captures_at r t)"
  then obtain w1 w3 rest where h: "t = w1 @ c @ w3 @ rest"
      "den flags_i (before r) w1 (c @ w3 @ rest)"
      "den flags_i (Plus NotNewline) c (w3 @ rest)"
      "den flags_i (Lit []) w3 rest"
    unfolding captures_at_iff assms(1-3) by (elim exE conjE)
  from h(4) have "w3 = []" by simp
  with h(1,2,3) assms(4) have "t = w1 @ c @ rest \<and> header w1 \<and> c \<noteq> [] \<and> 10 \<notin> set c"
    by (auto simp: in_cls_partial list_all_iff)
  then show "\<exists>h rest. t = h @ c @ rest \<and> header h \<and> c \<noteq> [] \<and> 10 \<notin> set c"
    by (intro exI)
next
  assume "\<exists>h rest. t = h @ c @ rest \<and> header h \<and> c \<noteq> [] \<and> 10 \<notin> set c"
  then obtain h rest where g: "t = h @ c @ rest" "header h" "c \<noteq> []" "10 \<notin> set c"
    by (elim exE conjE)
  from g assms(4) have "t = h @ c @ [] @ rest
      \<and> den (flag r) (before r) h (c @ [] @ rest)
      \<and> den (flag r) (group r) c ([] @ rest)
      \<and> den (flag r) (after r) [] rest"
    by (auto simp: assms(1-3) in_cls_partial list_all_iff)
  then show "c \<in> set (captures_at r t)"
    unfolding captures_at_iff by (intro exI)
qed

lemma line_pattern_match:
  assumes "flag r = flags_i" "group r = Plus NotNewline" "after r = Lit []"
    and "\<And>w ctx. den flags_i (before r) w ctx \<longleftrightarrow> header w"
  shows "js_match r s = Some c \<Longrightarrow> line_after header s c"
    and "js_match r s = None \<longleftrightarrow> \<not> (\<exists>c. line_after header s c)"
proof -
  note cap = line_pattern_captures[OF assms]
  have gen: "line_after header s x" if "js_match r s = Some x" for x
  proof -
    from js_match_Some_capture[OF that] obtain pre t where "s = pre @ t" "x \<in> set (captures_at r t)"
      by (elim exE conjE)
    then obtain h rest where "s = pre @ h @ x @ rest \<and> header h \<and> x \<noteq> [] \<and> 10 \<notin> set x"
      unfolding cap by auto
    then show ?thesis unfolding line_after_def by (intro exI)
  qed
  show "js_match r s = Some c \<Longrightarrow> line_after header s c" by (rule gen)
  show "js_match r s = None \<longleftrightarrow> \<not> (\<exists>c. line_after header s c)"
  proof
    assume n: "js_match r s = None"
    show "\<not> (\<exists>c. line_after header s c)"
    proof
      assume "\<exists>c. line_after header s c"
      then obtain c pre h rest where g: "s = pre @ h @ c @ rest" "header h" "c \<noteq> []" "10 \<notin> set c"
        unfolding line_after_def by (elim exE conjE)
      then have "h @ c @ rest = h @ c @ rest \<and> header h \<and> c \<noteq> [] \<and> 10 \<notin> set c" by simp
      then have "c \<in> set (captures_at r (h @ c @ rest))"
        unfolding cap by (intro exI)
      from js_match_not_None[OF this, of pre] g(1) n show False by simp
    qed
  next
    assume n: "\<not> (\<exists>c. line_after header s c)"
    show "js_match r s = None"
    proof (cases "js_match r s")
      case None
      then show ?thesis .
    next
      case (Some x)
      from gen[OF Some] n show ?thesis by blast
    qed
  qed
qed

lemma origin_before:
  "den flags_i (before originRe) w ctx \<longleftrightarrow> origin_header w"
  by (simp only: originRe_def regex.simps three_words_den origin_header_def)

lemma region_before:
  "den flags_i (before regionRe) w ctx \<longleftrightarrow> region_header w"
  by (simp only: regionRe_def regex.simps three_words_den region_header_def)

lemma originRe_fields:
  "flag originRe = flags_i" "group originRe = Plus NotNewline" "after originRe = Lit []"
  by (simp_all add: originRe_def)

lemma regionRe_fields:
  "flag regionRe = flags_i" "group regionRe = Plus NotNewline" "after regionRe = Lit []"
  by (simp_all add: regionRe_def)

lemmas origin_match = line_pattern_match[OF originRe_fields origin_before]
lemmas region_match = line_pattern_match[OF regionRe_fields region_before]

lemma origin_parse:
  "origin (parseAnalysis s) =
     (case js_match originRe s of None \<Rightarrow> None
      | Some og \<Rightarrow> Some (case js_match regionRe s of None \<Rightarrow> trim og
                          | Some rg \<Rightarrow> trim og @ js '' - '' @ trim rg))"
  by (simp add: parseAnalysis_def Let_def split: option.splits)

lemma js_match_origin_text: "js_match originRe origin_text = Some (js ''BRAZIL '')"
  by (simp add: originRe_def origin_text_def regex_eval)

lemma js_match_region_text: "js_match regionRe origin_text = Some (js ''CARMO'')"
  by (simp add: regionRe_def origin_text_def regex_eval)

lemma js_match_origin_none: "js_match originRe region_only_text = None"
  by (simp add: originRe_def region_only_text_def regex_eval)

lemma js_match_region_only: "js_match regionRe region_only_text = Some (js ''CARMO'')"
  by (simp add: regionRe_def region_only_text_def regex_eval)

section \<open>The section patterns\<close>

lemma chr_eq_s: "chr_eq flags_s = (=)"
  by (intro ext) (simp add: chr_eq_def flags_s_def)

lemma den_Lit_s: "list_all2 (chr_eq flags_s) p w = (w = p)"
  unfolding chr_eq_s list_all2_eq[symmetric] by auto

lemma sectionRe_fields:
  "flag (sectionRe title) = flags_s" "group (sectionRe title) = LazyStar Dot"
  "before (sectionRe title) = seqs [Lit title, Plus Space]"
  by (simp_all add: sectionRe_def)

lemma section_before:
  "den flags_s (before (sectionRe title)) w ctx \<longleftrightarrow>
     (\<exists>ws. w = title @ ws \<and> ws \<noteq> [] \<and> list_all is_space ws)"
  by (auto simp: sectionRe_fields den_Lit_s in_cls_partial)

lemma section_after_end: "den flags_s (after (sectionRe title)) [] []"
  by (simp add: sectionRe_def)

lemma section_group: "den flags_s (group (sectionRe title)) c ctx"
  by (simp add: sectionRe_fields flags_s_def list_all_iff)

lemma section_captures:
  assumes "c \<in> set (captures_at (sectionRe title) t)"
  shows "\<exists>ws rest. t = title @ ws @ c @ rest \<and> ws \<noteq> [] \<and> list_all is_space ws"
proof -
  from assms obtain w1 w3 rest where h: "t = w1 @ c @ w3 @ rest"
      "den flags_s (before (sectionRe title)) w1 (c @ w3 @ rest)"
    unfolding captures_at_iff sectionRe_fields(1) by (elim exE conjE)
  from h(2) obtain ws where "w1 = title @ ws" "ws \<noteq> []" "list_all is_space ws"
    unfolding section_before by (elim exE conjE)
  with h(1) have "t = title @ ws @ c @ (w3 @ rest) \<and> ws \<noteq> [] \<and> list_all is_space ws"
    by simp
  then show ?thesis by (intro exI)
qed

lemma section_heading_matches:
  assumes "is_space x"
  shows "rest \<in> set (captures_at (sectionRe title) (title @ x # rest))"
proof -
  have "den flags_s (before (sectionRe title)) (title @ [x]) (rest @ [] @ [])"
    unfolding section_before using assms by (intro exI[of _ "[x]"]) simp
  then have "title @ x # rest = (title @ [x]) @ rest @ [] @ []
      \<and> den (flag (sectionRe title)) (before (sectionRe title)) (title @ [x]) (rest @ [] @ [])
      \<and> den (flag (sectionRe title)) (group (sectionRe title)) rest ([] @ [])
      \<and> den (flag (sectionRe title)) (after (sectionRe title)) [] []"
    using section_group[of title rest "[]"] section_after_end[of title]
    by (simp add: sectionRe_fields(1))
  then show ?thesis
    unfolding captures_at_iff by (intro exI)
qed

lemma section_match_None:
  "js_match (sectionRe title) s = None \<longleftrightarrow> \<not> heading_at title s"
proof
  assume n: "js_match (sectionRe title) s = None"
  show "\<not> heading_at title s"
  proof
    assume "heading_at title s"
    then obtain pre x rest where g: "s = pre @ title @ x # rest" "is_space x"
      unfolding heading_at_def by (elim exE conjE)
    have "rest \<in> set (captures_at (sectionRe title) (title @ x # rest))"
      by (rule section_heading_matches[OF g(2)])
    from js_match_not_None[OF this, of pre] g(1) n
    show False by simp
  qed
next
  assume n: "\<not> heading_at title s"
  show "js_match (sectionRe title) s = None"
  proof (cases "js_match (sectionRe title) s")
    case None
    then show ?thesis .
  next
    case (Some c)
    from js_match_Some_capture[OF Some] obtain pre t where pt: "s = pre @ t"
      "c \<in> set (captures_at (sectionRe title) t)"
      by (elim exE conjE)
    from section_captures[OF pt(2)] obtain ws rest where w: "t = title @ ws @ c @ rest"
      "ws \<noteq> []" "list_all is_space ws"
      by (elim exE conjE)
    from w(2) obtain x xs where "ws = x # xs" by (cases ws) auto
    with w pt(1) have "s = pre @ title @ x # (xs @ c @ rest) \<and> is_space x" by simp
    then have "heading_at title s" unfolding heading_at_def by (intro exI)
    with n show ?thesis by simp
  qed
qed

lemma section_fields:
  "aboutOrigin (parseAnalysis s) = extractSection s (js ''About the Origin'')"
  "gradeAndSourcing (parseAnalysis s) = extractSection s (js ''Grade and Sourcing'')"
  "processingMethod (parseAnalysis s) = extractSection s (js ''Processing Method'')"
  "flavorProfile (parseAnalysis s) = extractSection s (js ''Flavor Profile'')"
  "roastLevelDescription (parseAnalysis s) = extractSection s (js ''Roast Level'')"
  by (simp_all add: parseAnalysis_def Let_def)

lemma view_in_depth:
  assumes "CoffeeProductView p = Some v"
  shows "in_depth v =
     InDepthDescriptionsSection (aboutOrigin (parseAnalysis (analysis p)))
       (gradeAndSourcing (parseAnalysis (analysis p))) (processingMethod (parseAnalysis (analysis p)))
       (flavorProfile (parseAnalysis (analysis p))) (roastLevelDescription (parseAnalysis (analysis p)))"
proof (cases "isOpen p")
  case True
  with assms show ?thesis
    by (simp add: CoffeeProductView_def Let_def) (erule subst, simp)
next
  case False
  with assms show ?thesis by (simp add: CoffeeProductView_def)
qed

lemma or_else_extract:
  "or_else (Some (extractSection s title)) (title @ js '' information will appear after analysis.'')
     = card_text s title"
  by (simp add: extractSection_def card_text_def split: option.splits)

lemma in_depth_view:
  assumes "CoffeeProductView p = Some v"
  shows "in_depth v =
       map (\<lambda>title. (title, card_text (analysis p) title))
         [js ''About the Origin'', js ''Grade and Sourcing'', js ''Processing Method'',
          js ''Flavor Profile'', js ''Roast Level'']"
  unfolding view_in_depth[OF assms] section_fields InDepthDescriptionsSection_def Let_def
  by (simp only: list.map prod.case or_else_extract)

lemma view_open: "isOpen p \<Longrightarrow> CoffeeProductView p = Some (the (CoffeeProductView p))"
  by (simp add: CoffeeProductView_def Let_def)

lemma heading_only_match:
  "js_match (sectionRe (js ''About the Origin'')) (analysis heading_only_props) = Some []"
  by (simp add: sectionRe_def heading_only_props_def regex_eval)

lemma sections_matches:
  "js_match (sectionRe (js ''About the Origin'')) (analysis sections_props) = Some (js ''Brazil is big.'')"
  "js_match (sectionRe (js ''Grade and Sourcing'')) (analysis sections_props) = Some (js ''Fine.'')"
  "js_match (sectionRe (js ''Processing Method'')) (analysis sections_props) = None"
  "js_match (sectionRe (js ''Flavor Profile'')) (analysis sections_props) = None"
  "js_match (sectionRe (js ''Roast Level'')) (analysis sections_props) = None"
  by (simp_all add: sectionRe_def sections_props_def regex_eval)

section \<open>File validation: results\<close>

lemma byte_at_take: "byte_at (take n a) i = (if i < n then byte_at a i else None)"
  by (simp add: byte_at_def)

lemma take_Suc_drop:
  "(take (Suc n) (drop k bs) = y # ys) = (byte_at bs k = Some y \<and> take n (drop (Suc k) bs) = ys)"
proof (cases "k < length bs")
  case True
  then have "drop k bs = bs ! k # drop (Suc k) bs"
    by (simp add: Cons_nth_drop_Suc)
  with True show ?thesis by (simp add: byte_at_def)
next
  case False
  then show ?thesis by (simp add: byte_at_def)
qed

lemma four_bytes:
  "(take 4 (drop k bs) = [a, b, c, d]) =
   (byte_at bs k = Some a \<and> byte_at bs (k + 1) = Some b \<and> byte_at bs (k + 2) = Some c
      \<and> byte_at bs (k + 3) = Some d)"
proof -
  have n4: "(4::nat) = Suc (Suc (Suc (Suc 0)))" by simp
  have e: "k + 3 = Suc (Suc (Suc k))" by simp
  show ?thesis
    by (simp add: n4 take_Suc_drop e)
qed

lemma three_bytes:
  "(take 3 (drop k bs) = [a, b, c]) =
   (byte_at bs k = Some a \<and> byte_at bs (k + 1) = Some b \<and> byte_at bs (k + 2) = Some c)"
proof -
  have n3: "(3::nat) = Suc (Suc (Suc 0))" by simp
  show ?thesis
    by (simp add: n3 take_Suc_drop)
qed

lemma isJPEG_take12: "isJPEG (take 12 bs) = jpeg_signature bs"
  using three_bytes[of 0 bs] by (simp add: isJPEG_def jpeg_signature_def byte_at_take numeral_2_eq_2)

lemma isPNG_take12: "isPNG (take 12 bs) = png_signature bs"
  using four_bytes[of 0 bs] by (simp add: isPNG_def png_signature_def byte_at_take numeral_2_eq_2 numeral_3_eq_3)

lemma isWEBP_take12: "isWEBP (take 12 bs) = webp_signature bs"
  using four_bytes[of 8 bs] by (simp add: isWEBP_def webp_signature_def byte_at_take)

lemma validateFile_loaded:
  "validateFile OnLoad f =
     (file_size f \<le> 10 * 1024 * 1024
      \<and> mime f \<in> {js ''image/jpeg'', js ''image/jpg'', js ''image/png'', js ''image/webp''}
      \<and> (jpeg_signature (bytes f) \<or> png_signature (bytes f) \<or> webp_signature (bytes f)))"
  by (auto simp: validateFile_def MAX_FILE_SIZE_def ALLOWED_MIME_TYPES_def
        isJPEG_take12 isPNG_take12 isWEBP_take12)

lemma validateFile_error: "\<not> validateFile OnError f"
  by (simp add: validateFile_def)

text \<open>
  Claim C3. \<open>validateFile\<close> resolves \<open>true\<close> exactly when the file is at most
  \<open>10 * 1024 * 1024\<close> bytes long, its MIME type is one of \<open>image/jpeg\<close>, \<open>image/jpg\<close>,
  \<open>image/png\<close>, \<open>image/webp\<close>, and the bytes read from it carry one of the three
  signatures (JPEG: bytes 0-2 are FF D8 FF; PNG: bytes 0-3 are 89 50 4E 47; WEBP: bytes
  8-11 are 57 45 42 50); in every other case it resolves \<open>false\<close>. The bytes are those the
  reader delivers: a read that ends in \<open>onerror\<close> delivers none and resolves \<open>false\<close>.
\<close>

theorem validateFile_spec:
  "validateFile ev f =
     (ev = OnLoad \<and> file_size f \<le> 10 * 1024 * 1024
      \<and> mime f \<in> {js ''image/jpeg'', js ''image/jpg'', js ''image/png'', js ''image/webp''}
      \<and> (jpeg_signature (bytes f) \<or> png_signature (bytes f) \<or> webp_signature (bytes f)))"
proof (cases ev)
  case OnLoad
  then show ?thesis by (simp add: validateFile_loaded)
next
  case OnError
  then show ?thesis by (simp add: validateFile_error)
qed

theorem validateFile_spec_witness:
  "validateFile OnLoad png_file \<and> \<not> validateFile OnError png_file
   \<and> \<not> validateFile OnLoad (png_file\<lparr>mime := js ''image/gif''\<rparr>)
   \<and> \<not> validateFile OnLoad (png_file\<lparr>bytes := [0x47, 0x49, 0x46, 0x38]\<rparr>)"
  using validateFile_spec[of OnLoad png_file] validateFile_spec[of OnError png_file]
    validateFile_spec[of OnLoad "png_file\<lparr>mime := js ''image/gif''\<rparr>"]
    validateFile_spec[of OnLoad "png_file\<lparr>bytes := [0x47, 0x49, 0x46, 0x38]\<rparr>"]
  by (simp add: png_file_def file_size_def js_def png_signature_def jpeg_signature_def webp_signature_def)

section \<open>Adding files: results\<close>

lemma validateFile_mime: "validateFile ev f \<Longrightarrow> mime f \<in> set ALLOWED_MIME_TYPES"
  by (simp add: validateFile_def split: if_splits)

lemma filter_valid_allowed:
  "filter (\<lambda>f. validateFile (reader f) f) (filter (\<lambda>f. mime f \<in> set ALLOWED_MIME_TYPES) fs)
     = filter (\<lambda>f. validateFile (reader f) f) fs"
  by (induction fs) (auto dest: validateFile_mime)

lemma filter_allowed_and_valid:
  "filter (\<lambda>f. mime f \<in> set ALLOWED_MIME_TYPES \<and> validateFile (reader f) f) fs
     = filter (\<lambda>f. validateFile (reader f) f) fs"
  by (rule filter_cong) (auto dest: validateFile_mime)

lemma length_filter_valid_le:
  "length (filter (\<lambda>f. validateFile (reader f) f) fs)
     \<le> length (filter (\<lambda>f. mime f \<in> set ALLOWED_MIME_TYPES) fs)"
proof -
  have "length (filter (\<lambda>f. validateFile (reader f) f) (filter (\<lambda>f. mime f \<in> set ALLOWED_MIME_TYPES) fs))
          \<le> length (filter (\<lambda>f. mime f \<in> set ALLOWED_MIME_TYPES) fs)"
    by (rule length_filter_le)
  then show ?thesis by (simp only: filter_valid_allowed)
qed

lemma handleDrop_images:
  "snd (handleDrop reader imgs imgs incoming) =
     (if length imgs + length (filter (\<lambda>f. mime f \<in> set ALLOWED_MIME_TYPES) incoming) > 5
      then imgs else imgs @ filter (\<lambda>f. validateFile (reader f) f) incoming)"
  by (simp add: handleDrop_def Let_def MAX_FILES_def filter_allowed_and_valid)

lemma handleFileSelect_eq_handleDrop:
  "handleFileSelect reader u prev fs = handleDrop reader u prev fs"
  by (simp add: handleFileSelect_def handleDrop_def)

lemma valid_png: "validateFile OnLoad png_file"
  by (simp add: validateFile_loaded png_file_def file_size_def js_def png_signature_def)

lemma invalid_fake: "\<not> validateFile OnLoad fake_png_file"
  by (simp add: validateFile_loaded fake_png_file_def file_size_def js_def png_signature_def
      jpeg_signature_def webp_signature_def)

lemma invalid_gif: "\<not> validateFile OnLoad gif_file"
  by (simp add: validateFile_loaded gif_file_def js_def)

lemma allowed_simps:
  "mime png_file \<in> set ALLOWED_MIME_TYPES" "mime fake_png_file \<in> set ALLOWED_MIME_TYPES"
  "mime gif_file \<notin> set ALLOWED_MIME_TYPES"
  by (simp_all add: ALLOWED_MIME_TYPES_def png_file_def fake_png_file_def gif_file_def js_def)

text \<open>
  Claim C6. The list of uploaded images is to hold five files at most. It does not: the
  limit is checked against the length of the list of the render that created the handler,
  and the files are appended to the list that is current when the update runs. Three
  valid files are dropped on the empty modal, and three more before the component has
  rendered again: both checks see no file uploaded, no alert is shown, and the list
  holds six files.
\<close>

theorem upload_limit_exceeded:
  "two_drops (\<lambda>_. OnLoad) [] [png_file, png_file, png_file] [png_file, png_file, png_file]
     = ([], [], [png_file, png_file, png_file, png_file, png_file, png_file])
   \<and> MAX_FILES < length (snd (snd (two_drops (\<lambda>_. OnLoad) [] [png_file, png_file, png_file]
                                       [png_file, png_file, png_file])))"
proof -
  have first: "handleDrop (\<lambda>_. OnLoad) [] [] [png_file, png_file, png_file]
                 = ([], [png_file, png_file, png_file])"
    by (simp add: handleDrop_def Let_def MAX_FILES_def allowed_simps valid_png)
  have second: "handleDrop (\<lambda>_. OnLoad) [] [png_file, png_file, png_file] [png_file, png_file, png_file]
                 = ([], [png_file, png_file, png_file, png_file, png_file, png_file])"
    by (simp add: handleDrop_def Let_def MAX_FILES_def allowed_simps valid_png)
  show ?thesis
    by (simp add: two_drops_def first second MAX_FILES_def)
qed

text \<open>
  One upload event at a time: the handler runs against the current list, \<open>imgs\<close> (the
  list it sees is the list its update extends), and \<open>incoming\<close> are the files of the event
  whose MIME type is allowed. If \<open>length imgs + length incoming\<close> exceeds 5, the batch is
  rejected, the only report is the alert and the list is unchanged; otherwise exactly the
  files that pass \<open>validateFile\<close> are appended, in their order. A list of five files or
  fewer stays so.
\<close>

theorem upload_limit:
  assumes "length imgs \<le> 5"
  shows "(let incoming = filter (\<lambda>f. mime f \<in> set ALLOWED_MIME_TYPES) fs in
          (5 < length imgs + length incoming \<longrightarrow>
             handleDrop reader imgs imgs fs = ([Alert too_many_files], imgs) \<and>
             handleFileSelect reader imgs imgs fs = ([Alert too_many_files], imgs)) \<and>
          (length imgs + length incoming \<le> 5 \<longrightarrow>
             snd (handleDrop reader imgs imgs fs) = imgs @ filter (\<lambda>f. validateFile (reader f) f) fs \<and>
             snd (handleFileSelect reader imgs imgs fs) = imgs @ filter (\<lambda>f. validateFile (reader f) f) fs))
         \<and> length (snd (handleDrop reader imgs imgs fs)) \<le> 5
         \<and> length (snd (handleFileSelect reader imgs imgs fs)) \<le> 5"
proof -
  let ?inc = "filter (\<lambda>f. mime f \<in> set ALLOWED_MIME_TYPES) fs"
  let ?valid = "filter (\<lambda>f. validateFile (reader f) f) fs"
  have rej: "5 < length imgs + length ?inc \<Longrightarrow> handleDrop reader imgs imgs fs = ([Alert too_many_files], imgs)"
    by (simp add: handleDrop_def MAX_FILES_def)
  have acc: "length imgs + length ?inc \<le> 5 \<Longrightarrow> snd (handleDrop reader imgs imgs fs) = imgs @ ?valid"
    by (simp add: handleDrop_images)
  have len: "length (snd (handleDrop reader imgs imgs fs)) \<le> 5"
  proof (cases "5 < length imgs + length ?inc")
    case True
    with assms show ?thesis by (simp add: handleDrop_images)
  next
    case False
    moreover have "length ?valid \<le> length ?inc" by (rule length_filter_valid_le)
    ultimately show ?thesis by (simp add: handleDrop_images)
  qed
  show ?thesis
    unfolding Let_def handleFileSelect_eq_handleDrop using rej acc len by blast
qed

theorem upload_limit_witness:
  "snd (handleDrop (\<lambda>_. OnLoad) [png_file] [png_file] [gif_file, png_file, fake_png_file]) = [png_file, png_file]
   \<and> handleFileSelect (\<lambda>_. OnLoad) [png_file, png_file, png_file, png_file] [png_file, png_file, png_file, png_file]
        [png_file, gif_file, png_file] = ([Alert too_many_files], [png_file, png_file, png_file, png_file])"
  using upload_limit[of "[png_file]" "[gif_file, png_file, fake_png_file]" "\<lambda>_. OnLoad"]
    upload_limit[of "[png_file, png_file, png_file, png_file]" "[png_file, gif_file, png_file]" "\<lambda>_. OnLoad"]
  by (simp add: Let_def allowed_simps valid_png invalid_fake invalid_gif)

lemma removeImage_aux:
  "map fst (filter (\<lambda>(_, j). j \<noteq> i) (zip xs [k..<k + length xs]))
     = (if i < k then xs else take (i - k) xs @ drop (Suc (i - k)) xs)"
proof (induction xs arbitrary: k)
  case Nil
  then show ?case by simp
next
  case (Cons x xs)
  have "k < k + length (x # xs)" by simp
  from upt_conv_Cons[OF this] have u: "[k..<k + length (x # xs)] = k # [Suc k..<Suc k + length xs]"
    by simp
  show ?case
  proof (cases "i < k")
    case True
    then show ?thesis using Cons[of "Suc k"] unfolding u by (simp del: upt_Suc)
  next
    case False
    show ?thesis
    proof (cases "i = k")
      case True
      then show ?thesis using Cons[of "Suc k"] unfolding u by (simp del: upt_Suc)
    next
      case ne: False
      with False have "Suc k \<le> i" by simp
      then have "i - k = Suc (i - Suc k)" by simp
      with ne False show ?thesis using Cons[of "Suc k"] unfolding u by (simp del: upt_Suc)
    qed
  qed
qed

text \<open>
  \<open>removeImage\<close> takes the file at the index out of the list and keeps the others in
  their order; the list never grows.
\<close>

theorem removeImage_spec:
  "removeImage i prev = take i prev @ drop (Suc i) prev
   \<and> length (removeImage i prev) \<le> length prev
   \<and> (i < length prev \<longrightarrow> length (removeImage i prev) = length prev - 1)"
proof -
  have "removeImage i prev = take i prev @ drop (Suc i) prev"
    using removeImage_aux[of i prev 0] by (simp add: removeImage_def)
  then show ?thesis by auto
qed

theorem removeImage_spec_witness:
  "removeImage 1 [png_file, gif_file, fake_png_file] = [png_file, fake_png_file]"
  using removeImage_spec[of 1 "[png_file, gif_file, fake_png_file]"] by simp

section \<open>Image compression: results\<close>

lemma compress_dimensions_cases:
  "compress_dimensions w h =
     (if max w h \<le> 800 then (of_nat w, of_nat h)
      else if h < w then (800, of_nat h * 800 / of_nat w)
      else (of_nat w * 800 / of_nat h, 800))"
  by (auto simp: compress_dimensions_def maxSize_def Let_def max_def not_le not_less)

lemma unsigned_long_of_nat: "n < 2 ^ 32 \<Longrightarrow> unsigned_long (of_nat n) = n"
  by (simp add: unsigned_long_def)

lemma unsigned_long_quotient:
  "a div b < 2 ^ 32 \<Longrightarrow> unsigned_long (of_nat a / of_nat b) = a div b"
  by (simp add: unsigned_long_def floor_divide_of_nat_eq)

lemma compressImage_cases:
  "compressImage (Some (w, h)) =
     Some (if max w h \<le> 800 then toDataURL w h (js ''image/jpeg'') (8 / 10)
           else if h < w then toDataURL 800 (h * 800 div w) (js ''image/jpeg'') (8 / 10)
           else toDataURL (w * 800 div h) 800 (js ''image/jpeg'') (8 / 10))"
proof -
  have small: "n \<le> 800 \<Longrightarrow> unsigned_long (of_nat n) = n" for n
    by (rule unsigned_long_of_nat) simp
  have u800: "unsigned_long 800 = 800"
    using small[of 800] by simp
  have q1: "h < w \<Longrightarrow> unsigned_long (of_nat h * 800 / of_nat w) = h * 800 div w"
  proof -
    assume "h < w"
    then have "0 < w" "h * 800 \<le> w * 800" by auto
    then have "h * 800 div w \<le> w * 800 div w" by (intro div_le_mono)
    with \<open>0 < w\<close> have "h * 800 div w \<le> 800" by simp
    then have "h * 800 div w < 2 ^ 32" by simp
    from unsigned_long_quotient[OF this] show ?thesis by simp
  qed
  have q2: "\<not> h < w \<Longrightarrow> \<not> max w h \<le> 800 \<Longrightarrow> unsigned_long (of_nat w * 800 / of_nat h) = w * 800 div h"
  proof -
    assume "\<not> h < w" "\<not> max w h \<le> 800"
    then have "w \<le> h" "0 < h" by auto
    then have "w * 800 \<le> h * 800" by simp
    then have "w * 800 div h \<le> h * 800 div h" by (rule div_le_mono)
    with \<open>0 < h\<close> have "w * 800 div h \<le> 800" by simp
    then have "w * 800 div h < 2 ^ 32" by simp
    from unsigned_long_quotient[OF this] show ?thesis by simp
  qed
  have "max w h \<le> 800 \<or> (\<not> max w h \<le> 800 \<and> h < w) \<or> (\<not> h < w \<and> \<not> max w h \<le> 800)" by auto
  then show ?thesis
    using q1 q2
    by (elim disjE conjE) (simp_all add: compressImage_def compress_dimensions_cases u800 small)
qed

text \<open>
  The sizes \<open>compressImage\<close> computes, and the canvas it encodes: an image whose larger side
  is at most 800 keeps its size; otherwise the larger side becomes 800 and the other is
  \<open>height * 800 / width\<close> (width larger) or \<open>width * 800 / height\<close>, of which the canvas
  takes the integer part. The canvas is encoded as \<open>image/jpeg\<close> at quality 0.8; the
  encoding has pixels when the smaller side is at least 1/800 of the larger.
\<close>

theorem compressImage_dimensions:
  assumes "0 < w" "0 < h"
  shows "compress_dimensions w h =
           (if max w h \<le> 800 then (of_nat w, of_nat h)
            else if h < w then (800, of_nat h * 800 / of_nat w)
            else (of_nat w * 800 / of_nat h, 800))
         \<and> compressImage (Some (w, h)) =
           Some (if max w h \<le> 800 then Encoded (js ''image/jpeg'') (8 / 10) w h
                 else if h < w then toDataURL 800 (h * 800 div w) (js ''image/jpeg'') (8 / 10)
                 else toDataURL (w * 800 div h) 800 (js ''image/jpeg'') (8 / 10))
         \<and> (max w h \<le> 800 * min w h \<longrightarrow>
               (\<exists>cw ch. compressImage (Some (w, h)) = Some (Encoded (js ''image/jpeg'') (8 / 10) cw ch)))"
proof -
  have enc: "0 < a \<Longrightarrow> 0 < b \<Longrightarrow> \<exists>cw ch. toDataURL a b (js ''image/jpeg'') (8 / 10)
      = Encoded (js ''image/jpeg'') (8 / 10) cw ch" for a b
    by (simp add: toDataURL_def)
  have d1: "max w h \<le> 800 * min w h \<Longrightarrow> h < w \<Longrightarrow> 0 < h * 800 div w"
  proof -
    assume "max w h \<le> 800 * min w h" "h < w"
    then have "w \<le> h * 800" by (simp add: max_def min_def mult.commute split: if_splits)
    with assms show ?thesis by (simp add: div_greater_zero_iff)
  qed
  have d2: "max w h \<le> 800 * min w h \<Longrightarrow> \<not> h < w \<Longrightarrow> 0 < w * 800 div h"
  proof -
    assume "max w h \<le> 800 * min w h" "\<not> h < w"
    then have "h \<le> w * 800" by (simp add: max_def min_def mult.commute split: if_splits)
    with assms show ?thesis by (simp add: div_greater_zero_iff)
  qed
  have third: "max w h \<le> 800 * min w h \<longrightarrow>
      (\<exists>cw ch. compressImage (Some (w, h)) = Some (Encoded (js ''image/jpeg'') (8 / 10) cw ch))"
  proof
    assume m: "max w h \<le> 800 * min w h"
    show "\<exists>cw ch. compressImage (Some (w, h)) = Some (Encoded (js ''image/jpeg'') (8 / 10) cw ch)"
    proof (cases "max w h \<le> 800")
      case True
      with enc[OF assms] show ?thesis by (simp add: compressImage_cases)
    next
      case False
      show ?thesis
      proof (cases "h < w")
        case True
        with False enc[OF _ d1[OF m True], of 800] show ?thesis
          by (simp add: compressImage_cases)
      next
        case hw: False
        with False enc[OF d2[OF m hw], of 800] show ?thesis
          by (simp add: compressImage_cases)
      qed
    qed
  qed
  show ?thesis
    using assms third by (simp add: compress_dimensions_cases compressImage_cases toDataURL_def)
qed

theorem compressImage_dimensions_witness:
  "compress_dimensions 1600 1200 = (800, 600)
   \<and> compressImage (Some (1600, 1200)) = Some (Encoded (js ''image/jpeg'') (8 / 10) 800 600)
   \<and> compressImage (Some (640, 480)) = Some (Encoded (js ''image/jpeg'') (8 / 10) 640 480)
   \<and> compressImage (Some (1000, 3000)) = Some (Encoded (js ''image/jpeg'') (8 / 10) 266 800)"
  using compressImage_dimensions[of 1600 1200] compressImage_dimensions[of 640 480]
    compressImage_dimensions[of 1000 3000]
  by (simp add: toDataURL_def)

text \<open>
  Claim C4. The sizes are as the claim says, but the output is not always a JPEG data URL: for an image of 1 by 1000 pixels the width becomes
  \<open>1 * 800 / 1000\<close>, the canvas takes its integer part 0, and a canvas without pixels is
  encoded as \<open>data:,\<close>.
\<close>

theorem compressImage_no_pixels: "compressImage (Some (1, 1000)) = Some NoPixels"
  by (simp add: compressImage_def compress_dimensions_def maxSize_def toDataURL_def unsigned_long_def)

section \<open>Submitting the form: results\<close>

lemma those_map_Some:
  "\<forall>x\<in>set xs. f x \<noteq> None \<Longrightarrow> those (map f xs) = Some (map (\<lambda>x. the (f x)) xs)"
  by (induction xs) auto

lemma those_map_None:
  "\<exists>x\<in>set xs. f x = None \<Longrightarrow> those (map f xs) = None"
  by (induction xs) (auto split: option.splits)

lemma compressImage_None: "(compressImage img = None) = (img = None)"
  by (auto simp: compressImage_def split: option.splits prod.splits)

text \<open>
  With at least one uploaded image, an input that is empty after trimming, and every
  image loading: the first message carries the fixed prompt and one attachment per file,
  of content type \<open>image/jpeg\<close> and with the file's name; the follow-up prompt is sent
  next; the form is left cleared.
\<close>

theorem handleFormSubmit_images_only:
  assumes imgs: "uploadedImages form \<noteq> []" and empty: "trim (input form) = []"
    and dec: "\<forall>f\<in>set (uploadedImages form). decode f \<noteq> None"
  shows "handleFormSubmit decode form =
     Sent [\<lparr>role = js ''user'', content = COFFEE_ANALYSIS_PROMPT,
             experimental_attachments = Some (map (attach decode) (uploadedImages form))\<rparr>,
           \<lparr>role = js ''user'', content = FOLLOW_UP_ANALYSIS_PROMPT,
             experimental_attachments = None\<rparr>]
          \<lparr>input = [], uploadedImages = []\<rparr>"
proof -
  let ?p = "\<lambda>file. case compressImage (decode file) of None \<Rightarrow> None
      | Some compressedUrl \<Rightarrow> Some \<lparr>attachment_name = name file, contentType = js ''image/jpeg'', url = compressedUrl\<rparr>"
  have "\<forall>f\<in>set (uploadedImages form). ?p f \<noteq> None"
    using dec by (auto simp: compressImage_None split: option.splits)
  then have "those (map ?p (uploadedImages form)) = Some (map (\<lambda>f. the (?p f)) (uploadedImages form))"
    by (rule those_map_Some)
  moreover have "map (\<lambda>f. the (?p f)) (uploadedImages form) = map (attach decode) (uploadedImages form)"
    using dec by (auto simp: attach_def compressImage_None split: option.splits)
  ultimately show ?thesis
    using imgs empty by (simp add: handleFormSubmit_def Let_def)
qed

theorem handleFormSubmit_images_only_witness:
  "handleFormSubmit (\<lambda>_. Some (1600, 1200)) \<lparr>input = js ''  '', uploadedImages = [png_file]\<rparr> =
     Sent [\<lparr>role = js ''user'', content = COFFEE_ANALYSIS_PROMPT,
             experimental_attachments =
               Some [\<lparr>attachment_name = js ''bag.png'', contentType = js ''image/jpeg'',
                      url = Encoded (js ''image/jpeg'') (8 / 10) 800 600\<rparr>]\<rparr>,
           \<lparr>role = js ''user'', content = FOLLOW_UP_ANALYSIS_PROMPT,
             experimental_attachments = None\<rparr>]
          \<lparr>input = [], uploadedImages = []\<rparr>"
  using handleFormSubmit_images_only[of "\<lparr>input = js ''  '', uploadedImages = [png_file]\<rparr>" "\<lambda>_. Some (1600, 1200)"]
    compressImage_cases[of 1600 1200]
  by (simp add: trim_def js_def is_space_def attach_def png_file_def toDataURL_def)

lemma handleFormSubmit_pending_iff:
  "(handleFormSubmit decode form = Pending) = (\<exists>f\<in>set (uploadedImages form). decode f = None)"
proof (cases "\<exists>f\<in>set (uploadedImages form). decode f = None")
  case True
  let ?p = "\<lambda>file. case compressImage (decode file) of None \<Rightarrow> None
      | Some compressedUrl \<Rightarrow> Some \<lparr>attachment_name = name file, contentType = js ''image/jpeg'', url = compressedUrl\<rparr>"
  from True have "\<exists>f\<in>set (uploadedImages form). ?p f = None"
    by (auto simp: compressImage_None split: option.splits)
  then have "those (map ?p (uploadedImages form)) = None" by (rule those_map_None)
  moreover from True have "uploadedImages form \<noteq> []" by auto
  ultimately show ?thesis using True by (simp add: handleFormSubmit_def Let_def)
next
  case False
  let ?p = "\<lambda>file. case compressImage (decode file) of None \<Rightarrow> None
      | Some compressedUrl \<Rightarrow> Some \<lparr>attachment_name = name file, contentType = js ''image/jpeg'', url = compressedUrl\<rparr>"
  from False have "\<forall>f\<in>set (uploadedImages form). ?p f \<noteq> None"
    by (auto simp: compressImage_None split: option.splits)
  then have "those (map ?p (uploadedImages form)) = Some (map (\<lambda>f. the (?p f)) (uploadedImages form))"
    by (rule those_map_Some)
  then show ?thesis using False by (simp add: handleFormSubmit_def Let_def)
qed

text \<open>
  Claim C5. The messages are as the claim says when every uploaded image loads. A file that passes \<open>validateFile\<close> need not load as
  an image: \<open>truncated_jpeg\<close> has the JPEG signature and nothing after it. Its
  \<open>compressImage\<close> promise is never resolved (there is no \<open>onerror\<close> handler), the
  submission stays at \<open>await Promise.all\<close>, and neither message is sent.
\<close>

theorem handleFormSubmit_pending:
  "validateFile OnLoad truncated_jpeg
   \<and> handleFormSubmit (\<lambda>_. None) \<lparr>input = [], uploadedImages = [truncated_jpeg]\<rparr> = Pending"
  by (simp add: validateFile_loaded truncated_jpeg_def file_size_def js_def jpeg_signature_def
      handleFormSubmit_def trim_def compressImage_def)

section \<open>Reporting failures: results\<close>

lemma handleDrop_reports:
  "fst (handleDrop reader u prev fs) =
     (if MAX_FILES < length u + length (filter (\<lambda>f. mime f \<in> set ALLOWED_MIME_TYPES) fs)
      then [Alert too_many_files]
      else map (\<lambda>f. Alert (file_rejected f))
             (filter (\<lambda>f. \<not> validateFile (reader f) f)
                (filter (\<lambda>f. mime f \<in> set ALLOWED_MIME_TYPES) fs)))"
  by (simp add: handleDrop_def Let_def)

lemma onError_nonempty: "onError m \<noteq> []"
  by (simp add: onError_def js_def)

lemma chat_error_banner: "chat_error_reports m = [ErrorBanner (onError m)]"
  using onError_nonempty[of m] by (simp add: chat_error_reports_def error_display_def)

text \<open>
  Claim C8, as amended. The failures of adding files are reported through \<open>alert\<close>
  dialogs and nothing else. With \<open>incoming\<close> the files of the event whose MIME type is
  allowed and \<open>u\<close> the list the handler sees: when \<open>length u + length incoming\<close> exceeds 5,
  the reports are the one alert about the limit; otherwise they are one alert for each
  incoming file that \<open>validateFile\<close> rejects, naming the file, in the order of the files
  (so none when every file is accepted). A failed chat request is not reported by an
  alert: it is reported through the error banner above the input, with one of three fixed
  texts (for a message that includes 429, one that includes 503, and every other).
\<close>

theorem failure_reports:
  "(let incoming = filter (\<lambda>f. mime f \<in> set ALLOWED_MIME_TYPES) fs;
        reports = (if MAX_FILES < length u + length incoming then [Alert too_many_files]
                   else map (\<lambda>f. Alert (file_rejected f))
                          (filter (\<lambda>f. \<not> validateFile (reader f) f) incoming))
    in fst (handleDrop reader u prev fs) = reports
       \<and> fst (handleFileSelect reader u prev fs) = reports)
   \<and> chat_error_reports m =
       [ErrorBanner
          (if includes' m (js ''429'') then js ''Too many requests. Please wait a minute before trying again.''
           else if includes' m (js ''503'') then js ''Service temporarily unavailable. Please try again later.''
           else js ''An error occurred. Please try again.'')]"
proof (intro conjI)
  show "let incoming = filter (\<lambda>f. mime f \<in> set ALLOWED_MIME_TYPES) fs;
            reports = (if MAX_FILES < length u + length incoming then [Alert too_many_files]
                       else map (\<lambda>f. Alert (file_rejected f))
                              (filter (\<lambda>f. \<not> validateFile (reader f) f) incoming))
        in fst (handleDrop reader u prev fs) = reports
           \<and> fst (handleFileSelect reader u prev fs) = reports"
    unfolding Let_def handleFileSelect_eq_handleDrop by (simp only: handleDrop_reports simp_thms)
next
  show "chat_error_reports m =
       [ErrorBanner
          (if includes' m (js ''429'') then js ''Too many requests. Please wait a minute before trying again.''
           else if includes' m (js ''503'') then js ''Service temporarily unavailable. Please try again later.''
           else js ''An error occurred. Please try again.'')]"
    unfolding chat_error_banner by (simp add: onError_def)
qed

theorem failure_reports_witness:
  "fst (handleDrop (\<lambda>_. OnLoad) [] [] [png_file, fake_png_file, gif_file]) = [Alert (file_rejected fake_png_file)]
   \<and> fst (handleFileSelect (\<lambda>_. OnLoad) [png_file, png_file, png_file, png_file] [] [png_file, png_file])
        = [Alert too_many_files]
   \<and> fst (handleDrop (\<lambda>_. OnLoad) [] [] [png_file]) = []
   \<and> chat_error_reports (js ''HTTP 503'') = [ErrorBanner (js ''Service temporarily unavailable. Please try again later.'')]"
  using failure_reports[of "[png_file, fake_png_file, gif_file]" "[]" "\<lambda>_. OnLoad" "[]" "js ''HTTP 503''"]
    failure_reports[of "[png_file, png_file]" "[png_file, png_file, png_file, png_file]" "\<lambda>_. OnLoad" "[]" "js ''HTTP 503''"]
    failure_reports[of "[png_file]" "[]" "\<lambda>_. OnLoad" "[]" "js ''HTTP 503''"]
  by (simp add: Let_def MAX_FILES_def allowed_simps valid_png invalid_fake invalid_gif js_def)

text \<open>
  The claim as it was stated fails for a chat request that is answered with status 429:
  the report is the banner, not an alert.
\<close>

theorem chat_error_not_alert:
  "chat_error_reports (js ''Error: 429'') = [ErrorBanner (js ''Too many requests. Please wait a minute before trying again.'')]
   \<and> \<not> list_all is_alert (chat_error_reports (js ''Error: 429''))"
  by (simp add: chat_error_reports_def error_display_def onError_def js_def)

section \<open>The product view: results\<close>

text \<open>
  Claim C2, as amended. \<open>parseAnalysis\<close> leaves \<open>roastLevel\<close> undefined exactly when the
  analysis holds no roast phrase (\<open>Roast\<close>, \<open>level\<close>, \<open>Profile:\<close> in any case, whitespace
  allowed after each, decimal digits, \<open>/5\<close>). Otherwise the digits \<open>ds\<close> of the first
  phrase, from the left, are read, and \<open>roastLevel\<close> is the Number nearest to the integer
  they write; that is the integer itself when it is below \<open>2 ^ 53\<close>.
\<close>

theorem roastLevel_first_match:
  "(roastLevel (parseAnalysis s) = None \<longleftrightarrow> \<not> (\<exists>pre ds. roast_phrase_at s pre ds))
   \<and> (\<forall>pre ds. roast_phrase_at s pre ds
           \<and> (\<forall>pre' ds'. roast_phrase_at s pre' ds' \<longrightarrow> length pre \<le> length pre')
         \<longrightarrow> roastLevel (parseAnalysis s) = Some (to_double (digits_value ds)))
   \<and> (\<forall>n < 2 ^ 53. to_double n = Num n)"
proof (intro conjI allI impI)
  show "roastLevel (parseAnalysis s) = None \<longleftrightarrow> \<not> (\<exists>pre ds. roast_phrase_at s pre ds)"
    by (simp add: roastLevel_parse js_match_roast_None)
next
  fix pre ds
  assume h: "roast_phrase_at s pre ds
           \<and> (\<forall>pre' ds'. roast_phrase_at s pre' ds' \<longrightarrow> length pre \<le> length pre')"
  then have "js_match roastRe s = Some ds"
    by (intro js_match_roast_first[of s pre ds]) blast+
  moreover from h obtain t rest where "roast_phrase t ds rest"
    unfolding roast_phrase_at_def by (elim exE conjE)
  from roast_phrase_digits[OF this] have "parseInt ds = to_double (digits_value ds)"
    by (simp add: parseInt_digits)
  ultimately show "roastLevel (parseAnalysis s) = Some (to_double (digits_value ds))"
    by (simp add: roastLevel_parse)
next
  fix n :: nat assume "n < 2 ^ 53"
  then show "to_double n = Num n" by (rule to_double_small)
qed

theorem roastLevel_first_match_witness:
  "roastLevel (parseAnalysis (js ''Roast level Profile: 7/5'')) = Some (Num 7)
   \<and> \<not> (\<exists>pre ds. roast_phrase_at (js ''Roast: 4/5'') pre ds)"
proof -
  have ph: "roast_phrase_at (js ''Roast level Profile: 7/5'') [] (js ''7'')"
    using roast_phrase_plain[of "js ''7''" "[]"]
    unfolding roast_phrase_at_def
    by (intro exI[of _ "js ''Roast level Profile: 7/5''"] exI[of _ "[]"])
       (simp add: js_def is_digit_def)
  have "roastLevel (parseAnalysis (js ''Roast level Profile: 7/5'')) = Some (to_double (digits_value (js ''7'')))"
    using roastLevel_first_match[of "js ''Roast level Profile: 7/5''", THEN conjunct2, THEN conjunct1,
        rule_format, of "[]" "js ''7''"] ph
    by simp
  moreover have "to_double (digits_value (js ''7'')) = Num 7"
    by (simp add: digits_value_def js_def to_double_def)
  moreover have "roastLevel (parseAnalysis (js ''Roast: 4/5'')) = None"
    by (simp add: roastLevel_parse roastRe_def regex_eval)
  then have "\<not> (\<exists>pre ds. roast_phrase_at (js ''Roast: 4/5'') pre ds)"
    using roastLevel_first_match[of "js ''Roast: 4/5''", THEN conjunct1] by simp
  ultimately show ?thesis by simp
qed

text \<open>
  The claim as it was stated fails for digits that write an integer which is not a
  Number: \<open>9007199254740993\<close> is read as \<open>9007199254740992\<close>. It also fails when
  whitespace around \<open>Profile\<close> is taken to include whitespace before the colon: the
  pattern allows none there.
\<close>

theorem roastLevel_not_the_integer:
  "roast_phrase_at (js ''Roast level Profile: 9007199254740993/5'') [] (js ''9007199254740993'')
   \<and> digits_value (js ''9007199254740993'') = 9007199254740993
   \<and> roastLevel (parseAnalysis (js ''Roast level Profile: 9007199254740993/5'')) = Some (Num 9007199254740992)
   \<and> roastLevel (parseAnalysis (js ''Roast level Profile : 3/5'')) = None"
proof -
  have "roast_phrase_at (js ''Roast level Profile: 9007199254740993/5'') [] (js ''9007199254740993'')"
    using roast_phrase_plain[of "js ''9007199254740993''" "[]"]
    unfolding roast_phrase_at_def
    by (intro exI[of _ "js ''Roast level Profile: 9007199254740993/5''"] exI[of _ "[]"])
       (simp add: js_def is_digit_def)
  moreover have "digits_value (js ''9007199254740993'') = 9007199254740993"
    by (simp add: digits_value_def js_def)
  moreover have "roastLevel (parseAnalysis (js ''Roast level Profile: 9007199254740993/5'')) = Some (Num 9007199254740992)"
    by (simp add: roastLevel_parse js_match_roast_huge parseInt_huge)
  moreover have "roastLevel (parseAnalysis (js ''Roast level Profile : 3/5'')) = None"
    by (simp add: roastLevel_parse roastRe_def regex_eval)
  ultimately show ?thesis by simp
qed

text \<open>
  Claim C9, as amended. The roast level is not clamped. When the digits of the first
  roast phrase write 0, the card shows the placeholder; when they write an integer above
  5, all five circles are filled and the label prints the Number read from them, which is
  that integer when it is below \<open>2 ^ 53\<close>.
\<close>

theorem roast_card_not_clamped:
  assumes "CoffeeProductView p = Some v"
  shows "(\<forall>ds. first_roast_digits (analysis p) ds \<and> digits_value ds = 0 \<longrightarrow>
            roast_cell (details v) = RoastPlaceholder (js ''Roast level will appear after analysis''))
       \<and> (\<forall>ds. first_roast_digits (analysis p) ds \<and> 5 < digits_value ds \<longrightarrow>
            roast_cell (details v) = RoastScale [True, True, True, True, True] (to_double (digits_value ds)))
       \<and> (\<forall>n < 2 ^ 53. to_double n = Num n)"
proof (intro conjI allI impI)
  fix ds assume h: "first_roast_digits (analysis p) ds \<and> digits_value ds = 0"
  from roast_first_small[of "analysis p" ds] h
  have eq: "map_option parseInt (js_match roastRe (analysis p)) = Some (to_double 0)"
    by (simp add: parseInt_digits)
  show "roast_cell (details v) = RoastPlaceholder (js ''Roast level will appear after analysis'')"
    unfolding roast_cell_view[OF assms] eq by (rule roast_card_zero)
next
  fix ds assume h: "first_roast_digits (analysis p) ds \<and> 5 < digits_value ds"
  from roast_first_small[of "analysis p" ds] h
  have eq: "map_option parseInt (js_match roastRe (analysis p)) = Some (to_double (digits_value ds))"
    by (simp add: parseInt_digits)
  from h have "5 < digits_value ds" ..
  then show "roast_cell (details v) = RoastScale [True, True, True, True, True] (to_double (digits_value ds))"
    unfolding roast_cell_view[OF assms] eq by (rule roast_card_large)
next
  fix n :: nat assume "n < 2 ^ 53"
  then show "to_double n = Num n" by (rule to_double_small)
qed


theorem roast_card_not_clamped_witness:
  "roast_cell (details (the (CoffeeProductView roast_zero_props)))
     = RoastPlaceholder (js ''Roast level will appear after analysis'')
   \<and> roast_cell (details (the (CoffeeProductView roast_seven_props)))
     = RoastScale [True, True, True, True, True] (Num 7)"
proof -
  have v0: "CoffeeProductView roast_zero_props = Some (the (CoffeeProductView roast_zero_props))"
    by (simp add: CoffeeProductView_def roast_zero_props_def Let_def)
  have v7: "CoffeeProductView roast_seven_props = Some (the (CoffeeProductView roast_seven_props))"
    by (simp add: CoffeeProductView_def roast_seven_props_def Let_def)
  have f0: "first_roast_digits (analysis roast_zero_props) (js ''0'')"
    using first_roast_digits_here[OF roast_phrase_plain[of "js ''0''" "[]"]]
    by (simp add: roast_zero_props_def js_def is_digit_def)
  have f7: "first_roast_digits (analysis roast_seven_props) (js ''7'')"
    using first_roast_digits_here[OF roast_phrase_plain[of "js ''7''" "[]"]]
    by (simp add: roast_seven_props_def js_def is_digit_def)
  have d: "digits_value (js ''0'') = 0" "digits_value (js ''7'') = 7" "to_double 7 = Num 7"
    by (simp_all add: digits_value_def js_def to_double_def)
  from roast_card_not_clamped[OF v0, THEN conjunct1, rule_format, of "js ''0''"] f0 d
  have "roast_cell (details (the (CoffeeProductView roast_zero_props)))
     = RoastPlaceholder (js ''Roast level will appear after analysis'')" by simp
  moreover from roast_card_not_clamped[OF v7, THEN conjunct2, THEN conjunct1, rule_format, of "js ''7''"] f7 d
  have "roast_cell (details (the (CoffeeProductView roast_seven_props)))
     = RoastScale [True, True, True, True, True] (Num 7)" by simp
  ultimately show ?thesis by simp
qed

text \<open>
  The claim as it was stated fails in two ways. An analysis can contain
  \<open>Roast level Profile: 0/5\<close> after an earlier roast phrase, and then the card shows the
  earlier level. And the label of a level that is not a Number prints the Number nearest
  to it.
\<close>

theorem roast_card_first_match_rounded:
  "includes' (analysis roast_twice_props) (js ''Roast level Profile: 0/5'')
   \<and> map_option (\<lambda>v. roast_cell (details v)) (CoffeeProductView roast_twice_props)
       = Some (RoastScale [True, True, True, False, False] (Num 3))
   \<and> map_option (\<lambda>v. roast_cell (details v)) (CoffeeProductView roast_huge_props)
       = Some (RoastScale [True, True, True, True, True] (Num 9007199254740992))"
proof -
  have "includes' (analysis roast_twice_props) (js ''Roast level Profile: 0/5'')"
    by (simp add: roast_twice_props_def js_def)
  moreover have "map_option (\<lambda>v. roast_cell (details v)) (CoffeeProductView roast_twice_props)
       = Some (RoastScale [True, True, True, False, False] (Num 3))"
    by (simp add: CoffeeProductView_def CoffeeDetailsGrid_def roastLevel_parse roast_twice_props_def Let_def
        js_match_roast_twice parseInt_3)
  moreover have "map_option (\<lambda>v. roast_cell (details v)) (CoffeeProductView roast_huge_props)
       = Some (RoastScale [True, True, True, True, True] (Num 9007199254740992))"
    by (simp add: CoffeeProductView_def CoffeeDetailsGrid_def roastLevel_parse roast_huge_props_def Let_def
        js_match_roast_huge parseInt_huge)
  ultimately show ?thesis by simp
qed

text \<open>
  Claim C7. \<open>parseAnalysis\<close> leaves \<open>origin\<close> undefined when the origin pattern does not
  match, even if the farm/region/detail pattern does; it sets \<open>origin\<close> to the trimmed
  capture of the origin pattern when only that one matches, and appends \<open>" - "\<close> and the
  trimmed capture of the farm/region/detail pattern when both match. What a pattern
  captures is text that follows its header on one line, and it matches exactly when there
  is such text.
\<close>

theorem origin_field:
  "(js_match originRe s = None \<longrightarrow> origin (parseAnalysis s) = None)
   \<and> (\<forall>og. js_match originRe s = Some og \<and> js_match regionRe s = None \<longrightarrow>
         origin (parseAnalysis s) = Some (trim og))
   \<and> (\<forall>og rg. js_match originRe s = Some og \<and> js_match regionRe s = Some rg \<longrightarrow>
         origin (parseAnalysis s) = Some (trim og @ js '' - '' @ trim rg))
   \<and> (\<forall>og. js_match originRe s = Some og \<longrightarrow> line_after origin_header s og)
   \<and> (js_match originRe s = None \<longleftrightarrow> \<not> (\<exists>og. line_after origin_header s og))
   \<and> (\<forall>rg. js_match regionRe s = Some rg \<longrightarrow> line_after region_header s rg)
   \<and> (js_match regionRe s = None \<longleftrightarrow> \<not> (\<exists>rg. line_after region_header s rg))"
  using origin_match(2)[of s] region_match(2)[of s]
  by (auto simp: origin_parse dest: origin_match(1) region_match(1))

theorem origin_field_witness:
  "origin (parseAnalysis origin_text) = Some (js ''BRAZIL - CARMO'')
   \<and> js_match regionRe region_only_text = Some (js ''CARMO'')
   \<and> origin (parseAnalysis region_only_text) = None
   \<and> line_after origin_header origin_text (js ''BRAZIL '')"
  using origin_field[of origin_text] origin_field[of region_only_text]
  by (simp add: js_match_origin_text js_match_region_text js_match_origin_none js_match_region_only)
     (simp add: trim_def js_def is_space_def)

text \<open>
  Claim C1, as amended. For each of the five in-depth sections: when the pattern of the
  section does not match the analysis, \<open>extractSection\<close> returns the empty string and the
  card shows the placeholder \<open><title> information will appear after analysis.\<close>; when it
  matches, the card shows the trimmed captured body if that is not empty, and the
  placeholder if it is. The pattern matches exactly when the section name, followed by a
  whitespace character, occurs in the analysis.
\<close>

theorem in_depth_cards:
  assumes "CoffeeProductView p = Some v"
  shows "in_depth v =
       map (\<lambda>title.
              (title,
               case js_match (sectionRe title) (analysis p) of
                 None \<Rightarrow> title @ js '' information will appear after analysis.''
               | Some body \<Rightarrow>
                   if trim body = [] then title @ js '' information will appear after analysis.''
                   else trim body))
         section_titles
     \<and> (\<forall>title \<in> set section_titles.
            js_match (sectionRe title) (analysis p) = None \<longrightarrow>
            extractSection (analysis p) title = [])
     \<and> (\<forall>title \<in> set section_titles.
            js_match (sectionRe title) (analysis p) = None \<longleftrightarrow>
            \<not> heading_at title (analysis p))"
proof (intro conjI ballI impI)
  show "in_depth v =
       map (\<lambda>title.
              (title,
               case js_match (sectionRe title) (analysis p) of
                 None \<Rightarrow> title @ js '' information will appear after analysis.''
               | Some body \<Rightarrow>
                   if trim body = [] then title @ js '' information will appear after analysis.''
                   else trim body))
         section_titles"
    unfolding in_depth_view[OF assms] card_text_def section_titles_def ..
next
  fix title assume "js_match (sectionRe title) (analysis p) = None"
  then show "extractSection (analysis p) title = []"
    by (simp add: extractSection_def)
next
  fix title
  show "js_match (sectionRe title) (analysis p) = None \<longleftrightarrow> \<not> heading_at title (analysis p)"
    by (rule section_match_None)
qed

theorem in_depth_cards_witness:
  "in_depth (the (CoffeeProductView sections_props)) =
     [(js ''About the Origin'', js ''Brazil is big.''),
      (js ''Grade and Sourcing'', js ''Fine.''),
      (js ''Processing Method'', js ''Processing Method information will appear after analysis.''),
      (js ''Flavor Profile'', js ''Flavor Profile information will appear after analysis.''),
      (js ''Roast Level'', js ''Roast Level information will appear after analysis.'')]"
proof -
  have "isOpen sections_props" by (simp add: sections_props_def)
  from in_depth_cards[OF view_open[OF this], THEN conjunct1] show ?thesis
    by (simp add: section_titles_def sections_matches) (simp add: trim_def js_def is_space_def)
qed

text \<open>
  The claim as it was stated fails for an analysis that ends after a section name and
  whitespace: the pattern matches, the trimmed body is empty, and the card shows the
  placeholder, not the body.
\<close>

theorem heading_without_body:
  "js_match (sectionRe (js ''About the Origin'')) (analysis heading_only_props) = Some []
   \<and> hd (in_depth (the (CoffeeProductView heading_only_props)))
       = (js ''About the Origin'', js ''About the Origin information will appear after analysis.'')
   \<and> trim [] \<noteq> js ''About the Origin information will appear after analysis.''"
proof -
  have "isOpen heading_only_props" by (simp add: heading_only_props_def)
  from in_depth_view[OF view_open[OF this]]
  have "hd (in_depth (the (CoffeeProductView heading_only_props)))
       = (js ''About the Origin'', card_text (analysis heading_only_props) (js ''About the Origin''))"
    by simp
  moreover have "card_text (analysis heading_only_props) (js ''About the Origin'')
      = js ''About the Origin information will appear after analysis.''"
    by (simp add: card_text_def heading_only_match) (simp add: trim_def js_def)
  moreover have "trim [] \<noteq> js ''About the Origin information will appear after analysis.''"
    by (simp add: trim_def js_def)
  ultimately show ?thesis by (simp add: heading_only_match)
qed

section \<open>The state behind parseAnalysis: results\<close>

lemma and_then_ret: "and_then (ret x) f = f x"
  by (rule ext) (simp add: and_then_def ret_def)

lemma head_option_append:
  "head_option (xs @ ys) = (if xs = [] then head_option ys else head_option xs)"
  by (cases xs) (simp_all add: head_option_def)

lemma head_option_None: "head_option xs = None \<longleftrightarrow> xs = []"
  by (cases xs) (simp_all add: head_option_def)

lemma head_inner:
  "map_option snd (head_option (concat (map (\<lambda>s2. map (\<lambda>s3. (f s3, g s2)) (h s2)) ys)))
     = head_option (map g (filter (\<lambda>s2. h s2 \<noteq> []) ys))"
proof (induction ys)
  case Nil
  then show ?case by (simp add: head_option_def)
next
  case (Cons y ys)
  show ?case
  proof (cases "h y")
    case Nil
    with Cons show ?thesis by simp
  next
    case (Cons z zs)
    then show ?thesis by (simp add: head_option_def)
  qed
qed

lemma head_outer:
  assumes "\<And>x. map_option snd (head_option (F x)) = head_option (G x)"
  shows "map_option snd (head_option (concat (map F xs))) = head_option (concat (map G xs))"
proof (induction xs)
  case Nil
  then show ?case by (simp add: head_option_def)
next
  case (Cons x xs)
  have "F x = [] \<longleftrightarrow> G x = []"
    using assms[of x] by (cases "F x"; cases "G x") (simp_all add: head_option_def)
  with Cons assms[of x] show ?case by (simp add: head_option_append)
qed

lemma head_matches_at: "map_option snd (head_option (matches_at r s)) = match_at r s"
proof -
  have "match_at r s = head_option (captures_at r s)"
    by (simp add: match_at_def head_option_def)
  also have "\<dots> = map_option snd (head_option (matches_at r s))"
    unfolding captures_at_def matches_at_def
    by (rule sym, rule head_outer) (rule head_inner)
  finally show ?thesis by simp
qed

lemma search_js_match: "map_option (\<lambda>(b, e, c). c) (search r i s) = js_match r s"
proof (induction s arbitrary: i)
  case Nil
  have "match_at r [] = map_option snd (head_option (matches_at r []))"
    by (simp add: head_matches_at)
  then show ?case
    by (cases "head_option (matches_at r [])") auto
next
  case (Cons x xs)
  have "match_at r (x # xs) = map_option snd (head_option (matches_at r (x # xs)))"
    by (simp add: head_matches_at)
  then show ?case using Cons[of "Suc i"]
    by (cases "head_option (matches_at r (x # xs))") auto
qed

lemma exec_result_js_match:
  "\<exists>w. exec_result r S = map_option (\<lambda>c. [w, c]) (js_match r S)"
proof -
  have j: "js_match r S = map_option (\<lambda>(b, e, c). c) (search r 0 S)"
    by (simp add: search_js_match)
  show ?thesis
  proof (cases "search r 0 S")
    case None
    then show ?thesis by (simp add: exec_result_def j)
  next
    case (Some m)
    obtain b e c where "m = (b, e, c)" by (cases m) auto
    with Some have "exec_result r S = map_option (\<lambda>c. [take (e - b) (drop b S), c]) (js_match r S)"
      by (simp add: exec_result_def j)
    then show ?thesis by (intro exI)
  qed
qed

lemma new_match:
  assumes "CHR ''g'' \<notin> set fl" "CHR ''y'' \<notin> set fl"
  shows "and_then (new_RegExp r fl) (\<lambda>a. and_then (str_match S a) K) h
           = K (exec_result r S) (h @ [plain_object r])"
  using assms
  by (simp add: and_then_def new_RegExp_def str_match_def RegExpBuiltinExec_def match_from_def
      exec_result_def plain_object_def Let_def split: option.splits prod.splits)

lemma extractSection_st_eq:
  "extractSection_st txt' nm h = (Inr (extractSection txt' nm), h @ [plain_object (sectionRe nm)])"
proof -
  obtain w where w: "exec_result (sectionRe nm) txt' = map_option (\<lambda>c. [w, c]) (js_match (sectionRe nm) txt')"
    using exec_result_js_match by blast
  show ?thesis
    unfolding extractSection_st_def
    by (simp add: new_match w extractSection_def element1_def trim_of_def ret_def
        split: option.splits)
qed

lemma sticky_shared:
  "(let h0 = [\<lparr>pattern = digitsRe, global = False, sticky = True, lastIndex = 0\<rparr>];
        (m1, h1) = str_match (js ''12'') 0 h0;
        (m2, h2) = str_match (js ''12'') 0 h1
    in m1 = Inr (Some [js ''12'', js ''12'']) \<and> m2 = Inr None)"
  by (simp add: str_match_def RegExpBuiltinExec_def match_from_def matches_at_def digitsRe_def
      head_option_def js_def is_digit_def Let_def)

lemma new_match_i:
  "and_then (new_RegExp r ''i'') (\<lambda>a. and_then (str_match S a) K) h
     = K (exec_result r S) (h @ [plain_object r])"
  by (rule new_match) simp_all

lemma new_match_s:
  "and_then (new_RegExp r ''s'') (\<lambda>a. and_then (str_match S a) K) h
     = K (exec_result r S) (h @ [plain_object r])"
  by (rule new_match) simp_all

lemma parseAnalysis_st_eq:
  "parseAnalysis_st scope txt' h =
     (Inr (parseAnalysis txt'),
      h @ map plain_object ([roastRe, originRe, regionRe, tastingRe, expertRe] @ map sectionRe section_titles))"
proof -
  obtain w1 where w1: "exec_result roastRe txt' = map_option (\<lambda>c. [w1, c]) (js_match roastRe txt')"
    using exec_result_js_match by blast
  obtain w2 where w2: "exec_result originRe txt' = map_option (\<lambda>c. [w2, c]) (js_match originRe txt')"
    using exec_result_js_match by blast
  obtain w3 where w3: "exec_result regionRe txt' = map_option (\<lambda>c. [w3, c]) (js_match regionRe txt')"
    using exec_result_js_match by blast
  obtain w4 where w4: "exec_result tastingRe txt' = map_option (\<lambda>c. [w4, c]) (js_match tastingRe txt')"
    using exec_result_js_match by blast
  obtain w5 where w5: "exec_result expertRe txt' = map_option (\<lambda>c. [w5, c]) (js_match expertRe txt')"
    using exec_result_js_match by blast
  have origin_run:
    "(case map_option (\<lambda>c. [w2, c]) (js_match originRe txt') of
        None \<Rightarrow> ret None
      | Some om \<Rightarrow>
          and_then (trim_of (element1 om)) (\<lambda>og.
            case map_option (\<lambda>c. [w3, c]) (js_match regionRe txt') of
              None \<Rightarrow> ret (Some og)
            | Some rm \<Rightarrow> and_then (trim_of (element1 rm)) (\<lambda>rg. ret (Some (og @ js '' - '' @ rg)))))
     = ret (origin (parseAnalysis txt'))"
    by (simp add: parseAnalysis_def Let_def element1_def trim_of_def and_then_ret
        split: option.splits)
  have tasting_run:
    "(case map_option (\<lambda>c. [w4, c]) (js_match tastingRe txt') of
        None \<Rightarrow> ret None
      | Some tm \<Rightarrow> and_then (trim_of (element1 tm)) (\<lambda>t. ret (Some t)))
     = ret (tastingNotes (parseAnalysis txt'))"
    by (simp add: parseAnalysis_def Let_def element1_def trim_of_def and_then_ret
        split: option.splits)
  have expert_run:
    "(case map_option (\<lambda>c. [w5, c]) (js_match expertRe txt') of
        None \<Rightarrow> ret None
      | Some em \<Rightarrow> and_then (trim_of (element1 em)) (\<lambda>e. ret (Some e)))
     = ret (expertOverview (parseAnalysis txt'))"
    by (simp add: parseAnalysis_def Let_def element1_def trim_of_def and_then_ret
        split: option.splits)
  have roast_val:
    "(case map_option (\<lambda>c. [w1, c]) (js_match roastRe txt') of
        None \<Rightarrow> None
      | Some m \<Rightarrow> Some (parseInt_of (element1 m)))
     = roastLevel (parseAnalysis txt')"
    by (simp add: parseAnalysis_def Let_def element1_def parseInt_of_def split: option.splits)
  have section_run: "and_then (extractSection_st txt' nm) K h' = K (extractSection txt' nm) (h' @ [plain_object (sectionRe nm)])"
    for nm h' and K :: "jsstring \<Rightarrow> analysisData run"
    by (simp add: and_then_def extractSection_st_eq)
  have "parseAnalysis_st scope txt' h =
     (Inr \<lparr>roastLevel = roastLevel (parseAnalysis txt'),
            origin = origin (parseAnalysis txt'),
            tastingNotes = tastingNotes (parseAnalysis txt'),
            expertOverview = expertOverview (parseAnalysis txt'),
            aboutOrigin = extractSection txt' (js ''About the Origin''),
            gradeAndSourcing = extractSection txt' (js ''Grade and Sourcing''),
            processingMethod = extractSection txt' (js ''Processing Method''),
            flavorProfile = extractSection txt' (js ''Flavor Profile''),
            roastLevelDescription = extractSection txt' (js ''Roast Level'')\<rparr>,
      h @ map plain_object ([roastRe, originRe, regionRe, tastingRe, expertRe] @ map sectionRe section_titles))"
    unfolding parseAnalysis_st_def
    by (simp only: new_match_i new_match_s w1 w2 w3 w4 w5 origin_run tasting_run expert_run roast_val
          and_then_ret section_run)
       (simp add: ret_def section_titles_def)
  also have "\<lparr>roastLevel = roastLevel (parseAnalysis txt'),
            origin = origin (parseAnalysis txt'),
            tastingNotes = tastingNotes (parseAnalysis txt'),
            expertOverview = expertOverview (parseAnalysis txt'),
            aboutOrigin = extractSection txt' (js ''About the Origin''),
            gradeAndSourcing = extractSection txt' (js ''Grade and Sourcing''),
            processingMethod = extractSection txt' (js ''Processing Method''),
            flavorProfile = extractSection txt' (js ''Flavor Profile''),
            roastLevelDescription = extractSection txt' (js ''Roast Level'')\<rparr> = parseAnalysis txt'"
    by (simp add: parseAnalysis_def Let_def)
  finally show ?thesis .
qed

text \<open>
  Claim C10. \<open>parseAnalysis\<close> is a function of the analysis string alone. Run from any
  heap and in any scope (the properties of the component: whether it is open, its
  analysis, its images), the call throws no exception and returns the object
  \<open>parseAnalysis txt'\<close>; it creates its ten RegExp objects, none of them global or sticky,
  and leaves every object that was on the heap as it was. So two calls with the same
  string return the same object whatever the scopes and the heaps they run in, and a call
  returns the same object after a call with any other string as before it.
\<close>

theorem parseAnalysis_pure:
  "parseAnalysis_st scope txt' h =
     (Inr (parseAnalysis txt'),
      h @ map plain_object ([roastRe, originRe, regionRe, tastingRe, expertRe] @ map sectionRe section_titles))
   \<and> fst (parseAnalysis_st scope txt' h) = fst (parseAnalysis_st scope2 txt' h2)
   \<and> fst (parseAnalysis_st scope2 txt' (snd (parseAnalysis_st scope earlier h)))
       = fst (parseAnalysis_st scope txt' h)"
proof (intro conjI)
  show "parseAnalysis_st scope txt' h =
     (Inr (parseAnalysis txt'),
      h @ map plain_object ([roastRe, originRe, regionRe, tastingRe, expertRe] @ map sectionRe section_titles))"
    by (rule parseAnalysis_st_eq)
next
  show "fst (parseAnalysis_st scope txt' h) = fst (parseAnalysis_st scope2 txt' h2)"
    by (simp only: parseAnalysis_st_eq fst_conv)
next
  show "fst (parseAnalysis_st scope2 txt' (snd (parseAnalysis_st scope earlier h)))
       = fst (parseAnalysis_st scope txt' h)"
    by (simp only: parseAnalysis_st_eq fst_conv)
qed

end
